theory Spec2Isabelle
  imports Main "HOL-Library.Char_ord" "HOL-Library.Sublist" "HOL-Library.Log_Nat"
    "HOL-Library.Multiset"
begin

section \<open>JavaScript strings\<close>

text \<open>
  A JavaScript string is a sequence of UTF-16 code units. The embedding covers the strings
  whose code units lie below 256 (Basic Latin and Latin-1 Supplement, where a code unit is a
  code point): a \<^typ>\<open>char\<close> is one code unit, a \<^typ>\<open>string\<close> is a JavaScript string and
  \<^const>\<open>length\<close> is its \<^verbatim>\<open>.length\<close>. White space, case mapping and the regular
  expression classes are those of ECMAScript on that range.
\<close>

definition isWhiteSpace :: "char \<Rightarrow> bool" where
  \<comment> \<open>\<^verbatim>\<open>\s\<close>, also what \<^verbatim>\<open>trim\<close> and \<^verbatim>\<open>parseInt\<close> strip:
      TAB, LF, VT, FF, CR, SP, NBSP.\<close>
  "isWhiteSpace c \<longleftrightarrow>
     c \<in> set [CHR 0x09, CHR 0x0A, CHR 0x0B, CHR 0x0C, CHR 0x0D, CHR 0x20, CHR 0xA0]"

definition isDigit :: "char \<Rightarrow> bool" where
  \<comment> \<open>\<^verbatim>\<open>\d\<close>\<close>
  "isDigit c \<longleftrightarrow> CHR ''0'' \<le> c \<and> c \<le> CHR ''9''"

definition isAsciiLower :: "char \<Rightarrow> bool" where
  "isAsciiLower c \<longleftrightarrow> CHR ''a'' \<le> c \<and> c \<le> CHR ''z''"

definition isAsciiUpper :: "char \<Rightarrow> bool" where
  "isAsciiUpper c \<longleftrightarrow> CHR ''A'' \<le> c \<and> c \<le> CHR ''Z''"

definition isAlnum :: "char \<Rightarrow> bool" where
  \<comment> \<open>\<^verbatim>\<open>[a-zA-Z0-9]\<close>\<close>
  "isAlnum c \<longleftrightarrow> isAsciiLower c \<or> isAsciiUpper c \<or> isDigit c"

definition isWordChar :: "char \<Rightarrow> bool" where
  \<comment> \<open>\<^verbatim>\<open>\w\<close>\<close>
  "isWordChar c \<longleftrightarrow> isAlnum c \<or> c = CHR ''_''"

definition isUpper :: "char \<Rightarrow> bool" where
  \<comment> \<open>the code units below 256 that \<^verbatim>\<open>toLowerCase\<close> changes: A-Z, and U+00C0 to
      U+00DE without the multiplication sign U+00D7\<close>
  "isUpper c \<longleftrightarrow> isAsciiUpper c \<or> (CHR 0xC0 \<le> c \<and> c \<le> CHR 0xDE \<and> c \<noteq> CHR 0xD7)"

fun setBit5 :: "char \<Rightarrow> char" where
  "setBit5 (Char b0 b1 b2 b3 b4 b5 b6 b7) = Char b0 b1 b2 b3 b4 True b6 b7"

definition toLowerChar :: "char \<Rightarrow> char" where
  \<comment> \<open>the lower-case letter is 0x20 above the upper-case one; bit 5 of every upper-case
      code unit is clear, so adding 0x20 sets it\<close>
  "toLowerChar c = (if isUpper c then setBit5 c else c)"

definition toLowerCase :: "string \<Rightarrow> string" where
  "toLowerCase s = map toLowerChar s"

definition trim :: "string \<Rightarrow> string" where
  "trim s = rev (dropWhile isWhiteSpace (rev (dropWhile isWhiteSpace s)))"

text \<open>
  \<^verbatim>\<open>s.replace(/C+/g, r)\<close> for a character class \<open>C\<close>: every maximal run of class
  characters is replaced by \<open>r\<close>.
\<close>

function replaceRuns :: "(char \<Rightarrow> bool) \<Rightarrow> string \<Rightarrow> string \<Rightarrow> string" where
  "replaceRuns P r [] = []"
| "replaceRuns P r (c # cs) =
     (if P c then r @ replaceRuns P r (dropWhile P cs) else c # replaceRuns P r cs)"
  by pat_completeness auto
termination
  by (relation "measure (\<lambda>(P, r, s). length s)")
     (auto simp: length_dropWhile_le less_Suc_eq_le)

text \<open>
  \<^verbatim>\<open>s.split(/C+/)\<close>: the pieces between the maximal runs of class characters, an empty
  piece before a leading run and after a trailing one; the empty string gives one empty piece.
  The accumulator holds the piece being read.
\<close>

function splitRunsAcc :: "(char \<Rightarrow> bool) \<Rightarrow> string \<Rightarrow> string \<Rightarrow> string list" where
  "splitRunsAcc P acc [] = [acc]"
| "splitRunsAcc P acc (c # cs) =
     (if P c then acc # splitRunsAcc P [] (dropWhile P cs)
      else splitRunsAcc P (acc @ [c]) cs)"
  by pat_completeness auto
termination
  by (relation "measure (\<lambda>(P, acc, s). length s)")
     (auto simp: length_dropWhile_le less_Suc_eq_le)

definition splitRuns :: "(char \<Rightarrow> bool) \<Rightarrow> string \<Rightarrow> string list" where
  "splitRuns P s = splitRunsAcc P [] s"

text \<open>
  The same two methods for a literal, non-empty pattern \<open>lit\<close>: the occurrences are found
  from left to right and do not overlap.
\<close>

function replaceLit :: "string \<Rightarrow> string \<Rightarrow> string \<Rightarrow> string" where
  "replaceLit lit r [] = []"
| "replaceLit lit r (c # cs) =
     (if lit \<noteq> [] \<and> prefix lit (c # cs) then r @ replaceLit lit r (drop (length lit) (c # cs))
      else c # replaceLit lit r cs)"
  by pat_completeness auto
termination
  by (relation "measure (\<lambda>(lit, r, s). length s)") (auto simp: Suc_le_eq)

function splitLitAcc :: "string \<Rightarrow> string \<Rightarrow> string \<Rightarrow> string list" where
  "splitLitAcc lit acc [] = [acc]"
| "splitLitAcc lit acc (c # cs) =
     (if lit \<noteq> [] \<and> prefix lit (c # cs) then acc # splitLitAcc lit [] (drop (length lit) (c # cs))
      else splitLitAcc lit (acc @ [c]) cs)"
  by pat_completeness auto
termination
  by (relation "measure (\<lambda>(lit, acc, s). length s)") (auto simp: Suc_le_eq)

definition splitLit :: "string \<Rightarrow> string \<Rightarrow> string list" where
  "splitLit lit s = splitLitAcc lit [] s"

fun str_includes :: "string \<Rightarrow> string \<Rightarrow> bool" where
  \<comment> \<open>\<^verbatim>\<open>s.includes(t)\<close>\<close>
  "str_includes [] t \<longleftrightarrow> t = []"
| "str_includes (c # cs) t \<longleftrightarrow> prefix t (c # cs) \<or> str_includes cs t"


section \<open>JavaScript numbers\<close>

text \<open>
  A Number is a double. The program only ever holds integral ones, so a finite Number is
  modelled by the integer it equals: \<open>Num n\<close> with \<open>n\<close> representable. The sign of zero
  is not modelled (it is not observable through \<^verbatim>\<open>>=\<close>, \<^verbatim>\<open>===\<close> or JSON).
\<close>

datatype number = NaN | Num int | PosInf | NegInf

definition round_mag :: "int \<Rightarrow> int" where
  \<comment> \<open>a non-negative integer rounded to 53 significant bits, ties to even\<close>
  "round_mag a =
     (if a < 2 ^ 53 then a
      else let e = nat (bitlen a) - 53;
               q = a div 2 ^ e;
               r = a mod 2 ^ e;
               half = 2 ^ (e - 1)
           in (if r > half \<or> (r = half \<and> odd q) then q + 1 else q) * 2 ^ e)"

definition to_number :: "int \<Rightarrow> number" where
  \<comment> \<open>the Number nearest to a mathematical integer; 2^1024 and beyond is infinite\<close>
  "to_number n =
     (let v = round_mag \<bar>n\<bar>
      in if v \<ge> 2 ^ 1024 then (if n < 0 then NegInf else PosInf)
         else Num (if n < 0 then - v else v))"

fun num_add_int :: "number \<Rightarrow> int \<Rightarrow> number" where
  \<comment> \<open>\<^verbatim>\<open>x + k\<close> for an integer literal \<open>k\<close>\<close>
  "num_add_int (Num n) k = to_number (n + k)"
| "num_add_int x k = x"

fun isNaN :: "number \<Rightarrow> bool" where
  \<comment> \<open>\<^verbatim>\<open>Number.isNaN\<close>\<close>
  "isNaN NaN = True"
| "isNaN x = False"

fun num_ge :: "int \<Rightarrow> number \<Rightarrow> bool" where
  \<comment> \<open>\<^verbatim>\<open>l >= x\<close> for an exact integer \<open>l\<close> (a length or a count)\<close>
  "num_ge l (Num n) \<longleftrightarrow> l \<ge> n"
| "num_ge l NegInf \<longleftrightarrow> True"
| "num_ge l x \<longleftrightarrow> False"

fun num_le :: "int \<Rightarrow> number \<Rightarrow> bool" where
  \<comment> \<open>\<^verbatim>\<open>l <= x\<close>\<close>
  "num_le l (Num n) \<longleftrightarrow> l \<le> n"
| "num_le l PosInf \<longleftrightarrow> True"
| "num_le l x \<longleftrightarrow> False"

fun num_eq :: "int \<Rightarrow> number \<Rightarrow> bool" where
  \<comment> \<open>\<^verbatim>\<open>l === x\<close>\<close>
  "num_eq l (Num n) \<longleftrightarrow> l = n"
| "num_eq l x \<longleftrightarrow> False"

definition digitValue :: "char \<Rightarrow> nat option" where
  "digitValue c =
     (if isDigit c then Some (of_char c - 48)
      else if isAsciiLower c then Some (of_char c - 87)
      else if isAsciiUpper c then Some (of_char c - 55)
      else None)"

definition isRadixDigit :: "nat \<Rightarrow> char \<Rightarrow> bool" where
  "isRadixDigit R c = (case digitValue c of None \<Rightarrow> False | Some d \<Rightarrow> d < R)"

definition digitsValue :: "nat \<Rightarrow> string \<Rightarrow> int" where
  "digitsValue R z = foldl (\<lambda>acc c. acc * int R + int (the (digitValue c))) 0 z"

definition parseInt :: "string \<Rightarrow> nat option \<Rightarrow> number" where
  \<comment> \<open>\<^verbatim>\<open>parseInt(s, radix)\<close>; \<open>None\<close> is the call without a radix\<close>
  "parseInt s radix =
     (let S = dropWhile isWhiteSpace s;
          neg = (S \<noteq> [] \<and> hd S = CHR ''-'');
          S1 = (if S \<noteq> [] \<and> (hd S = CHR ''+'' \<or> hd S = CHR ''-'') then tl S else S);
          R0 = (case radix of None \<Rightarrow> 0 | Some r \<Rightarrow> r);
          stripPrefix = (R0 = 0 \<or> R0 = 16);
          R1 = (if R0 = 0 then 10 else R0);
          hex = (stripPrefix \<and> (prefix ''0x'' S1 \<or> prefix ''0X'' S1));
          S2 = (if hex then drop 2 S1 else S1);
          R = (if hex then 16 else R1);
          Z = takeWhile (isRadixDigit R) S2
      in if R0 \<noteq> 0 \<and> (R0 < 2 \<or> R0 > 36) then NaN
         else if Z = [] then NaN
         else to_number ((if neg then - 1 else 1) * digitsValue R Z))"

section \<open>Regular expressions\<close>

text \<open>
  The fragment of ECMAScript regular expressions that the program uses, with the
  backtracking order of the language: a literal, one character of a class, a greedy
  \<open>C+\<close> over a class, sequence, alternation (left first), a greedy optional group, the one
  capturing group, and the word boundary \<^verbatim>\<open>\b\<close>.
\<close>

datatype rx =
    Lit string
  | Cls "char \<Rightarrow> bool"
  | Plus "char \<Rightarrow> bool"
  | Seq rx rx
  | Alt rx rx
  | Opt rx
  | Grp rx
  | WordB

text \<open>
  A position of the matcher: the character before it (for \<^verbatim>\<open>\b\<close>), the rest of the
  input, and what group 1 has captured.
\<close>

type_synonym mstate = "char option \<times> string \<times> string option"

definition wordBefore :: "char option \<Rightarrow> bool" where
  "wordBefore p = (case p of None \<Rightarrow> False | Some c \<Rightarrow> isWordChar c)"

definition wordAfter :: "string \<Rightarrow> bool" where
  "wordAfter s = (case s of [] \<Rightarrow> False | c # _ \<Rightarrow> isWordChar c)"

definition advance :: "nat \<Rightarrow> mstate \<Rightarrow> mstate" where
  \<comment> \<open>consume \<open>k\<close> characters\<close>
  "advance k st =
     (case st of (p, s, cap) \<Rightarrow> (if k = 0 then p else Some (s ! (k - 1)), drop k s, cap))"

text \<open>
  \<open>rx_step r st\<close> lists the positions where a match of \<open>r\<close> begun at \<open>st\<close> can end, in the
  order in which the backtracking matcher tries them.
\<close>

fun rx_step :: "rx \<Rightarrow> mstate \<Rightarrow> mstate list" where
  "rx_step (Lit l) (p, s, cap) = (if prefix l s then [advance (length l) (p, s, cap)] else [])"
| "rx_step (Cls P) (p, s, cap) =
     (case s of [] \<Rightarrow> [] | c # cs \<Rightarrow> if P c then [(Some c, cs, cap)] else [])"
| "rx_step (Plus P) (p, s, cap) =
     map (\<lambda>k. advance k (p, s, cap)) (rev [1 ..< Suc (length (takeWhile P s))])"
| "rx_step (Seq a b) st = concat (map (rx_step b) (rx_step a st))"
| "rx_step (Alt a b) st = rx_step a st @ rx_step b st"
| "rx_step (Opt a) st = rx_step a st @ [st]"
| "rx_step (Grp a) (p, s, cap) =
     map (\<lambda>(p', s', cap'). (p', s', Some (take (length s - length s') s))) (rx_step a (p, s, cap))"
| "rx_step WordB (p, s, cap) = (if wordBefore p \<noteq> wordAfter s then [(p, s, cap)] else [])"

text \<open>The leftmost match: the start positions are tried from left to right.\<close>

fun rx_search :: "rx \<Rightarrow> char option \<Rightarrow> string \<Rightarrow> mstate option" where
  "rx_search r p [] = (case rx_step r (p, [], None) of [] \<Rightarrow> None | m # _ \<Rightarrow> Some m)"
| "rx_search r p (c # cs) =
     (case rx_step r (p, c # cs, None) of [] \<Rightarrow> rx_search r (Some c) cs | m # _ \<Rightarrow> Some m)"

definition rx_test :: "rx \<Rightarrow> string \<Rightarrow> bool" where
  \<comment> \<open>\<^verbatim>\<open>re.test(s)\<close>\<close>
  "rx_test r s \<longleftrightarrow> rx_search r None s \<noteq> None"

definition rx_match :: "rx \<Rightarrow> string \<Rightarrow> string option option" where
  \<comment> \<open>\<^verbatim>\<open>s.match(re)\<close> for a regular expression without the g flag: \<open>None\<close> is
      \<^verbatim>\<open>null\<close>, otherwise element 1 of the result (\<open>None\<close> when group 1 took no part)\<close>
  "rx_match r s = (case rx_search r None s of None \<Rightarrow> None | Some (p, rest, cap) \<Rightarrow> Some cap)"

definition toString :: "string option \<Rightarrow> string" where
  \<comment> \<open>the string that \<^verbatim>\<open>parseInt\<close> reads from a capture\<close>
  "toString cap = (case cap of None \<Rightarrow> ''undefined'' | Some s \<Rightarrow> s)"


section \<open>The analyzer of \<^verbatim>\<open>index.js\<close>\<close>

text \<open>
  SHA-256 comes from the \<^verbatim>\<open>crypto\<close> module of the platform and the timestamp from its
  clock: the digest function \<open>h\<close> and the timestamp \<open>now\<close> are parameters of every
  operation that uses them. Nothing is assumed of \<open>h\<close>.

  The fields of the JavaScript objects keep their names, after a prefix that tells the
  records apart: \<open>p_\<close> for the properties, \<open>e_\<close> for a stored entry, \<open>q_\<close> for the query
  parameters and \<open>f_\<close> for the filters.
\<close>

definition countWords :: "string \<Rightarrow> nat" where
  "countWords s =
     (if s = [] then 0
      else length (filter (\<lambda>t. t \<noteq> []) (splitRuns isWhiteSpace (trim s))))"

definition charFreqMap :: "string \<Rightarrow> (char \<times> nat) list" where
  \<comment> \<open>the object as its list of own properties in the order of their creation; the loop
      body is \<^verbatim>\<open>map[ch] = (map[ch] || 0) + 1\<close>\<close>
  "charFreqMap s =
     foldl (\<lambda>m ch. case map_of m ch of
                       None \<Rightarrow> m @ [(ch, 1)]
                     | Some n \<Rightarrow> map (\<lambda>(k, v). if k = ch then (k, n + 1) else (k, v)) m) [] s"

definition isPalindrome :: "string \<Rightarrow> bool" where
  "isPalindrome s =
     (let normalized = replaceRuns isWhiteSpace [] (toLowerCase s)
      in normalized = concat (rev (map (\<lambda>c. [c]) normalized)))"

record properties =
  p_length :: nat
  p_is_palindrome :: bool
  p_unique_characters :: nat
  p_word_count :: nat
  p_sha256_hash :: string
  p_character_frequency_map :: "(char \<times> nat) list"

definition analyzeString :: "(string \<Rightarrow> string) \<Rightarrow> string \<Rightarrow> properties" where
  "analyzeString h v =
     \<lparr> p_length = length v,
       p_is_palindrome = isPalindrome v,
       p_unique_characters = length (remdups v),
       p_word_count = countWords v,
       p_sha256_hash = h v,
       p_character_frequency_map = charFreqMap v \<rparr>"

section \<open>The analyzer of the second server file\<close>

text \<open>
  The repository holds a second, shorter server (\<^verbatim>\<open>src/unnamed/part_000\<close>) with the
  same routes. Its definitions carry the prefix \<open>p0_\<close>. Its two regular expressions are
  written \<^verbatim>\<open>/\+s/\<close>, which matches the two characters \<^verbatim>\<open>+s\<close>, and it calls
  \<^verbatim>\<open>split()\<close> without a separator, which gives the one-element array of the whole string.
\<close>

record p0_properties =
  p0_length :: nat
  p0_is_palindrome :: bool
  p0_unique_characters :: nat
  p0_word_count :: nat
  p0_sha_256_hash :: string
  p0_character_frequency_map :: "(char \<times> nat) list"

definition p0_analyzeString :: "(string \<Rightarrow> string) \<Rightarrow> string \<Rightarrow> p0_properties" where
  "p0_analyzeString h str =
     (let normalized = replaceLit ''+s'' [] (toLowerCase str);
          is_palindrome = (normalized = concat (rev [normalized]));
          words = filter (\<lambda>t. t \<noteq> []) (splitLit ''+s'' (trim str))
      in \<lparr> p0_length = length str,
           p0_is_palindrome = is_palindrome,
           p0_unique_characters = length (remdups str),
           p0_word_count = length words,
           p0_sha_256_hash = h str,
           p0_character_frequency_map = charFreqMap str \<rparr>)"

section \<open>The store\<close>

text \<open>
  A JavaScript \<^verbatim>\<open>Map\<close> keeps its entries in the order of insertion, and
  \<^verbatim>\<open>values()\<close> enumerates them in that order: the store is the list of its entries.
  The operations are written for lists in which a key occurs once, as it does in a
  \<^verbatim>\<open>Map\<close>; the routes only build such lists.
\<close>

type_synonym ('k, 'v) jsmap = "('k \<times> 'v) list"

definition map_has :: "('k, 'v) jsmap \<Rightarrow> 'k \<Rightarrow> bool" where
  "map_has m k \<longleftrightarrow> k \<in> fst ` set m"

definition map_get :: "('k, 'v) jsmap \<Rightarrow> 'k \<Rightarrow> 'v option" where
  "map_get m k = map_of m k"

definition map_set :: "('k, 'v) jsmap \<Rightarrow> 'k \<Rightarrow> 'v \<Rightarrow> ('k, 'v) jsmap" where
  \<comment> \<open>a present key keeps its place, a new one goes to the end\<close>
  "map_set m k v =
     (if map_has m k then map (\<lambda>(k', v'). if k' = k then (k', v) else (k', v')) m
      else m @ [(k, v)])"

definition map_delete :: "('k, 'v) jsmap \<Rightarrow> 'k \<Rightarrow> ('k, 'v) jsmap" where
  "map_delete m k = filter (\<lambda>(k', v'). k' \<noteq> k) m"

definition map_values :: "('k, 'v) jsmap \<Rightarrow> 'v list" where
  "map_values m = map snd m"

record entry =
  e_id :: string
  e_value :: string
  e_properties :: properties
  e_created_at :: string

record p0_record =
  r_id :: string
  r_value :: string
  r_properties :: p0_properties
  r_created_at :: string

type_synonym store = "(string, entry) jsmap"
type_synonym p0_store = "(string, p0_record) jsmap"

section \<open>Requests and responses\<close>

text \<open>
  The body of a POST: the \<^verbatim>\<open>value\<close> field is absent (\<open>None\<close>), a string, or a JSON value
  of another type. A query parameter is absent or a string.
\<close>

datatype jsvalue = JString string | JOther

record query =
  q_is_palindrome :: "string option"
  q_min_length :: "string option"
  q_max_length :: "string option"
  q_word_count :: "string option"
  q_contains_character :: "string option"

text \<open>
  The objects \<^verbatim>\<open>filtersApplied\<close> and \<^verbatim>\<open>parsed\<close>: a field is \<open>None\<close> when the object
  does not have the property.
\<close>

record filters =
  f_is_palindrome :: "bool option"
  f_min_length :: "number option"
  f_max_length :: "number option"
  f_word_count :: "number option"
  f_contains_character :: "string option"

definition no_filters :: filters where
  "no_filters = \<lparr> f_is_palindrome = None, f_min_length = None, f_max_length = None,
                  f_word_count = None, f_contains_character = None \<rparr>"

definition keys_count :: "filters \<Rightarrow> nat" where
  \<comment> \<open>\<^verbatim>\<open>Object.keys(parsed).length\<close>\<close>
  "keys_count f =
     (if f_is_palindrome f = None then 0 else 1) + (if f_min_length f = None then 0 else 1) +
     (if f_max_length f = None then 0 else 1) + (if f_word_count f = None then 0 else 1) +
     (if f_contains_character f = None then 0 else 1)"

text \<open>
  A response: the status code with the body. \<open>Listing\<close> carries \<^verbatim>\<open>data\<close>,
  \<^verbatim>\<open>count\<close> and \<^verbatim>\<open>filters_applied\<close>; \<open>Interpreted\<close> carries \<^verbatim>\<open>data\<close>,
  \<^verbatim>\<open>count\<close>, \<^verbatim>\<open>original\<close> and \<^verbatim>\<open>parsed_filters\<close>; \<open>Failure\<close> carries the status
  and which error message the body holds (the two servers word the messages differently).
\<close>

datatype error =
    Missing_value         \<comment> \<open>no \<^verbatim>\<open>value\<close> field in the body\<close>
  | Not_a_string          \<comment> \<open>\<^verbatim>\<open>value\<close> must be a string\<close>
  | Already_exists        \<comment> \<open>the string already exists\<close>
  | Not_found             \<comment> \<open>string not found\<close>
  | Invalid_filter string \<comment> \<open>the named query parameter is malformed\<close>
  | Missing_query         \<comment> \<open>missing query parameter\<close>
  | Unable_to_parse       \<comment> \<open>unable to parse the natural language query\<close>

datatype 'e response =
    Created 'e
  | Found 'e
  | Listing "'e list" nat filters
  | Interpreted "'e list" nat string filters
  | Deleted
  | Failure nat error

fun status :: "'e response \<Rightarrow> nat" where
  "status (Created e) = 201"
| "status (Found e) = 200"
| "status (Listing d c f) = 200"
| "status (Interpreted d c original f) = 200"
| "status Deleted = 204"
| "status (Failure code err) = code"

fun data :: "'e response \<Rightarrow> 'e list" where
  \<comment> \<open>the \<^verbatim>\<open>data\<close> array of a listing\<close>
  "data (Listing d c f) = d"
| "data (Interpreted d c original f) = d"
| "data r = []"

section \<open>The routes of \<^verbatim>\<open>index.js\<close>\<close>

definition post_strings ::
  "(string \<Rightarrow> string) \<Rightarrow> string \<Rightarrow> store \<Rightarrow> jsvalue option \<Rightarrow> entry response \<times> store" where
  "post_strings h now store body =
     (case body of
        None \<Rightarrow> (Failure 400 Missing_value, store)
      | Some JOther \<Rightarrow> (Failure 422 Not_a_string, store)
      | Some (JString v) \<Rightarrow>
          (let hash = h v
           in if map_has store hash then (Failure 409 Already_exists, store)
              else (let properties = analyzeString h v;
                        entry = \<lparr> e_id = hash, e_value = v, e_properties = properties,
                                  e_created_at = now \<rparr>
                    in (Created entry, map_set store hash entry))))"

definition get_string :: "(string \<Rightarrow> string) \<Rightarrow> store \<Rightarrow> string \<Rightarrow> entry response" where
  "get_string h store raw =
     (case map_get store (h raw) of
        None \<Rightarrow> Failure 404 Not_found
      | Some entry \<Rightarrow> Found entry)"

definition delete_string ::
  "(string \<Rightarrow> string) \<Rightarrow> store \<Rightarrow> string \<Rightarrow> entry response \<times> store" where
  "delete_string h store raw =
     (let hash = h raw
      in if \<not> map_has store hash then (Failure 404 Not_found, store)
         else (Deleted, map_delete store hash))"

text \<open>
  \<^verbatim>\<open>GET /strings\<close> runs five blocks in a row, one for each query parameter; a block
  leaves \<^verbatim>\<open>results\<close> and \<^verbatim>\<open>filtersApplied\<close> alone when its parameter is absent,
  narrows and records when it is well-formed, and answers 400 otherwise.
\<close>

type_synonym lstate = "entry list \<times> filters"

definition block_is_palindrome :: "string option \<Rightarrow> lstate \<Rightarrow> entry response + lstate" where
  "block_is_palindrome param st =
     (case param of
        None \<Rightarrow> Inr st
      | Some raw \<Rightarrow>
          (let val = toLowerCase raw
           in if val = ''true'' \<or> val = ''false'' then
                (let boolVal = (val = ''true'')
                 in Inr (filter (\<lambda>r. p_is_palindrome (e_properties r) = boolVal) (fst st),
                         (snd st)\<lparr>f_is_palindrome := Some boolVal\<rparr>))
              else Inl (Failure 400 (Invalid_filter ''is_palindrome''))))"

definition block_min_length :: "string option \<Rightarrow> lstate \<Rightarrow> entry response + lstate" where
  "block_min_length param st =
     (case param of
        None \<Rightarrow> Inr st
      | Some raw \<Rightarrow>
          (let n = parseInt raw (Some 10)
           in if isNaN n then Inl (Failure 400 (Invalid_filter ''min_length''))
              else Inr (filter (\<lambda>r. num_ge (int (p_length (e_properties r))) n) (fst st),
                        (snd st)\<lparr>f_min_length := Some n\<rparr>)))"

definition block_max_length :: "string option \<Rightarrow> lstate \<Rightarrow> entry response + lstate" where
  "block_max_length param st =
     (case param of
        None \<Rightarrow> Inr st
      | Some raw \<Rightarrow>
          (let n = parseInt raw (Some 10)
           in if isNaN n then Inl (Failure 400 (Invalid_filter ''max_length''))
              else Inr (filter (\<lambda>r. num_le (int (p_length (e_properties r))) n) (fst st),
                        (snd st)\<lparr>f_max_length := Some n\<rparr>)))"

definition block_word_count :: "string option \<Rightarrow> lstate \<Rightarrow> entry response + lstate" where
  "block_word_count param st =
     (case param of
        None \<Rightarrow> Inr st
      | Some raw \<Rightarrow>
          (let n = parseInt raw (Some 10)
           in if isNaN n then Inl (Failure 400 (Invalid_filter ''word_count''))
              else Inr (filter (\<lambda>r. num_eq (int (p_word_count (e_properties r))) n) (fst st),
                        (snd st)\<lparr>f_word_count := Some n\<rparr>)))"

definition block_contains_character :: "string option \<Rightarrow> lstate \<Rightarrow> entry response + lstate" where
  "block_contains_character param st =
     (case param of
        None \<Rightarrow> Inr st
      | Some ch \<Rightarrow>
          (if length ch = 0 then Inl (Failure 400 (Invalid_filter ''contains_character''))
           else Inr (filter (\<lambda>r. str_includes (e_value r) ch) (fst st),
                     (snd st)\<lparr>f_contains_character := Some ch\<rparr>)))"

definition and_then :: "'r + 's \<Rightarrow> ('s \<Rightarrow> 'r + 's) \<Rightarrow> 'r + 's" where
  \<comment> \<open>the next block runs unless a response has been sent\<close>
  "and_then x f = (case x of Inl r \<Rightarrow> Inl r | Inr st \<Rightarrow> f st)"

definition list_strings :: "store \<Rightarrow> query \<Rightarrow> entry response" where
  "list_strings store q =
     (case and_then (and_then (and_then (and_then
             (block_is_palindrome (q_is_palindrome q) (map_values store, no_filters))
             (block_min_length (q_min_length q)))
             (block_max_length (q_max_length q)))
             (block_word_count (q_word_count q)))
             (block_contains_character (q_contains_character q)) of
        Inl r \<Rightarrow> r
      | Inr (results, filtersApplied) \<Rightarrow> Listing results (length results) filtersApplied)"


subsection \<open>The natural-language route\<close>

definition re_single_word :: rx where
  \<comment> \<open>\<^verbatim>\<open>/\b(single word|single-word|one word)\b/\<close>\<close>
  "re_single_word =
     Seq WordB (Seq (Grp (Alt (Lit ''single word'') (Alt (Lit ''single-word'') (Lit ''one word''))))
       WordB)"

definition re_palindrome :: rx where
  \<comment> \<open>\<^verbatim>\<open>/\bpalindromic\b|\bpalindrome\b/\<close>\<close>
  "re_palindrome =
     Alt (Seq WordB (Seq (Lit ''palindromic'') WordB)) (Seq WordB (Seq (Lit ''palindrome'') WordB))"

definition re_longer_than :: rx where
  \<comment> \<open>\<^verbatim>\<open>/longer than (\d+)/\<close>\<close>
  "re_longer_than = Seq (Lit ''longer than '') (Grp (Plus isDigit))"

definition re_at_least :: rx where
  \<comment> \<open>\<^verbatim>\<open>/\bat least (\d+)\b/\<close>\<close>
  "re_at_least = Seq WordB (Seq (Lit ''at least '') (Seq (Grp (Plus isDigit)) WordB))"

definition re_first_vowel :: rx where
  \<comment> \<open>\<^verbatim>\<open>/\bfirst vowel\b/\<close>\<close>
  "re_first_vowel = Seq WordB (Seq (Lit ''first vowel'') WordB)"

definition re_containing :: rx where
  \<comment> \<open>\<^verbatim>\<open>/containing (?:the letter )?([a-zA-Z0-9])/\<close>\<close>
  "re_containing = Seq (Lit ''containing '') (Seq (Opt (Lit ''the letter '')) (Grp (Cls isAlnum)))"

text \<open>
  The object \<^verbatim>\<open>parsed\<close> is built by six blocks in a row, each reading the lower-cased
  query; a later block overwrites the property an earlier one has set.
\<close>

definition parse_single_word :: "string \<Rightarrow> filters \<Rightarrow> filters" where
  "parse_single_word low parsed =
     (if rx_test re_single_word low then parsed\<lparr>f_word_count := Some (Num 1)\<rparr> else parsed)"

definition parse_palindrome :: "string \<Rightarrow> filters \<Rightarrow> filters" where
  "parse_palindrome low parsed =
     (if rx_test re_palindrome low then parsed\<lparr>f_is_palindrome := Some True\<rparr> else parsed)"

definition parse_longer_than :: "string \<Rightarrow> filters \<Rightarrow> filters" where
  "parse_longer_than low parsed =
     (case rx_match re_longer_than low of
        None \<Rightarrow> parsed
      | Some cap \<Rightarrow>
          (let num = parseInt (toString cap) (Some 10)
           in if \<not> isNaN num then parsed\<lparr>f_min_length := Some (num_add_int num 1)\<rparr>
              else parsed))"

definition parse_at_least :: "string \<Rightarrow> filters \<Rightarrow> filters" where
  "parse_at_least low parsed =
     (case rx_match re_at_least low of
        None \<Rightarrow> parsed
      | Some cap \<Rightarrow>
          (let num = parseInt (toString cap) (Some 10)
           in if \<not> isNaN num then parsed\<lparr>f_min_length := Some num\<rparr> else parsed))"

definition parse_first_vowel :: "string \<Rightarrow> filters \<Rightarrow> filters" where
  "parse_first_vowel low parsed =
     (if rx_test re_first_vowel low then parsed\<lparr>f_contains_character := Some ''a''\<rparr>
      else parsed)"

definition parse_containing :: "string \<Rightarrow> filters \<Rightarrow> filters" where
  "parse_containing low parsed =
     (case rx_match re_containing low of
        None \<Rightarrow> parsed
      | Some cap \<Rightarrow> parsed\<lparr>f_contains_character := cap\<rparr>)"

definition parsed_filters :: "string \<Rightarrow> filters" where
  \<comment> \<open>the object \<^verbatim>\<open>parsed\<close> after the six blocks\<close>
  "parsed_filters original =
     (let low = toLowerCase original
      in parse_containing low (parse_first_vowel low (parse_at_least low
           (parse_longer_than low (parse_palindrome low (parse_single_word low no_filters))))))"

definition interpret_query :: "string \<Rightarrow> error + filters" where
  \<comment> \<open>the interpreter: the derived filters, or the answer that none could be derived\<close>
  "interpret_query original =
     (let parsed = parsed_filters original
      in if keys_count parsed = 0 then Inl Unable_to_parse else Inr parsed)"

definition apply_parsed :: "filters \<Rightarrow> entry list \<Rightarrow> entry list" where
  \<comment> \<open>the four filter lines after the parse, in their order\<close>
  "apply_parsed parsed results =
     (let r1 = (case f_is_palindrome parsed of None \<Rightarrow> results
                | Some b \<Rightarrow> filter (\<lambda>r. p_is_palindrome (e_properties r) = b) results);
          r2 = (case f_word_count parsed of None \<Rightarrow> r1
                | Some n \<Rightarrow> filter (\<lambda>r. num_eq (int (p_word_count (e_properties r))) n) r1);
          r3 = (case f_min_length parsed of None \<Rightarrow> r2
                | Some n \<Rightarrow> filter (\<lambda>r. num_ge (int (p_length (e_properties r))) n) r2);
          r4 = (case f_contains_character parsed of None \<Rightarrow> r3
                | Some ch \<Rightarrow> filter (\<lambda>r. str_includes (e_value r) ch) r3)
      in r4)"

definition filter_by_natural_language :: "store \<Rightarrow> string option \<Rightarrow> entry response" where
  \<comment> \<open>\<^verbatim>\<open>!q\<close> holds for an absent and for an empty query\<close>
  "filter_by_natural_language store q =
     (case q of
        None \<Rightarrow> Failure 400 Missing_query
      | Some original \<Rightarrow>
          (if original = [] then Failure 400 Missing_query
           else case interpret_query original of
                  Inl err \<Rightarrow> Failure 400 err
                | Inr parsed \<Rightarrow>
                    (let results = apply_parsed parsed (map_values store)
                     in Interpreted results (length results) original parsed)))"

subsection \<open>The server as a whole\<close>

text \<open>
  A request names the route handler that serves it, with what the handler reads from the
  request. How Express finds the handler from the method and the path is not modelled: the
  embedding is of the five handlers. (Both files register \<^verbatim>\<open>GET /strings/:string_value\<close>
  before \<^verbatim>\<open>GET /strings/filter-by-natural-language\<close>, and Express tries the routes in
  the order of their registration.)
\<close>

datatype request =
    POST_strings "jsvalue option"
  | GET_string string
  | GET_strings query
  | GET_natural_language "string option"
  | DELETE_string string

fun handle ::
  "(string \<Rightarrow> string) \<Rightarrow> string \<Rightarrow> request \<Rightarrow> store \<Rightarrow> entry response \<times> store" where
  \<comment> \<open>one request, received at time \<open>now\<close>\<close>
  "handle h now (POST_strings body) store = post_strings h now store body"
| "handle h now (GET_string raw) store = (get_string h store raw, store)"
| "handle h now (GET_strings q) store = (list_strings store q, store)"
| "handle h now (GET_natural_language q) store = (filter_by_natural_language store q, store)"
| "handle h now (DELETE_string raw) store = delete_string h store raw"

fun run :: "(string \<Rightarrow> string) \<Rightarrow> (string \<times> request) list \<Rightarrow> store \<Rightarrow> store" where
  \<comment> \<open>the store after a sequence of requests, each with its time\<close>
  "run h [] store = store"
| "run h ((now, req) # reqs) store = run h reqs (snd (handle h now req store))"


section \<open>The routes of the second server file\<close>

definition p0_post_strings ::
  "(string \<Rightarrow> string) \<Rightarrow> string \<Rightarrow> p0_store \<Rightarrow> jsvalue option
     \<Rightarrow> p0_record response \<times> p0_store" where
  "p0_post_strings h now strDB body =
     (case body of
        None \<Rightarrow> (Failure 400 Missing_value, strDB)
      | Some JOther \<Rightarrow> (Failure 422 Not_a_string, strDB)
      | Some (JString v) \<Rightarrow>
          (let properties = p0_analyzeString h v;
               ident = p0_sha_256_hash properties
           in if map_has strDB ident then (Failure 409 Already_exists, strDB)
              else (let record = \<lparr> r_id = ident, r_value = v, r_properties = properties,
                                    r_created_at = now \<rparr>
                    in (Created record, map_set strDB ident record))))"

definition p0_get_string ::
  "(string \<Rightarrow> string) \<Rightarrow> p0_store \<Rightarrow> string \<Rightarrow> p0_record response" where
  "p0_get_string h strDB v =
     (let hash = h v
      in if \<not> map_has strDB hash then Failure 404 Not_found
         else (case map_get strDB hash of
                 Some record \<Rightarrow> Found record
               | None \<Rightarrow> Failure 404 Not_found))"

definition p0_delete_string ::
  "(string \<Rightarrow> string) \<Rightarrow> p0_store \<Rightarrow> string \<Rightarrow> p0_record response \<times> p0_store" where
  "p0_delete_string h strDB v =
     (let hash = h v
      in if \<not> map_has strDB hash then (Failure 404 Not_found, strDB)
         else (Deleted, map_delete strDB hash))"

text \<open>
  \<^verbatim>\<open>GET /strings\<close> of this file validates nothing: \<^verbatim>\<open>is_palindrome\<close> is true for the
  string \<^verbatim>\<open>true\<close> and false for every other one, the numbers are read by
  \<^verbatim>\<open>parseInt\<close> without a radix and may be \<^verbatim>\<open>NaN\<close>, and any string is taken for
  \<^verbatim>\<open>contains_character\<close>.
\<close>

type_synonym p0_lstate = "p0_record list \<times> filters"

definition p0_block_is_palindrome :: "string option \<Rightarrow> p0_lstate \<Rightarrow> p0_lstate" where
  "p0_block_is_palindrome param st =
     (case param of
        None \<Rightarrow> st
      | Some raw \<Rightarrow>
          (let b = (raw = ''true'')
           in (filter (\<lambda>r. p0_is_palindrome (r_properties r) = b) (fst st),
               (snd st)\<lparr>f_is_palindrome := Some b\<rparr>)))"

definition p0_block_min_length :: "string option \<Rightarrow> p0_lstate \<Rightarrow> p0_lstate" where
  "p0_block_min_length param st =
     (case param of
        None \<Rightarrow> st
      | Some raw \<Rightarrow>
          (let n = parseInt raw None
           in (filter (\<lambda>r. num_ge (int (p0_length (r_properties r))) n) (fst st),
               (snd st)\<lparr>f_min_length := Some n\<rparr>)))"

definition p0_block_max_length :: "string option \<Rightarrow> p0_lstate \<Rightarrow> p0_lstate" where
  "p0_block_max_length param st =
     (case param of
        None \<Rightarrow> st
      | Some raw \<Rightarrow>
          (let n = parseInt raw None
           in (filter (\<lambda>r. num_le (int (p0_length (r_properties r))) n) (fst st),
               (snd st)\<lparr>f_max_length := Some n\<rparr>)))"

definition p0_block_word_count :: "string option \<Rightarrow> p0_lstate \<Rightarrow> p0_lstate" where
  "p0_block_word_count param st =
     (case param of
        None \<Rightarrow> st
      | Some raw \<Rightarrow>
          (let n = parseInt raw None
           in (filter (\<lambda>r. num_eq (int (p0_word_count (r_properties r))) n) (fst st),
               (snd st)\<lparr>f_word_count := Some n\<rparr>)))"

definition p0_block_contains_character :: "string option \<Rightarrow> p0_lstate \<Rightarrow> p0_lstate" where
  "p0_block_contains_character param st =
     (case param of
        None \<Rightarrow> st
      | Some ch \<Rightarrow>
          (filter (\<lambda>r. str_includes (r_value r) ch) (fst st),
           (snd st)\<lparr>f_contains_character := Some ch\<rparr>))"

definition p0_list_strings :: "p0_store \<Rightarrow> query \<Rightarrow> p0_record response" where
  "p0_list_strings strDB q =
     (case p0_block_contains_character (q_contains_character q)
            (p0_block_word_count (q_word_count q)
              (p0_block_max_length (q_max_length q)
                (p0_block_min_length (q_min_length q)
                  (p0_block_is_palindrome (q_is_palindrome q) (map_values strDB, no_filters))))) of
        (results, filters) \<Rightarrow> Listing results (length results) filters)"

definition re_letter :: rx where
  \<comment> \<open>\<^verbatim>\<open>/letter (\w)/\<close>\<close>
  "re_letter = Seq (Lit ''letter '') (Grp (Cls isWordChar))"

definition p0_parsed_filters :: "string \<Rightarrow> filters" where
  "p0_parsed_filters query =
     (let q = toLowerCase query;
          f1 = (if str_includes q ''palindromic'' then no_filters\<lparr>f_is_palindrome := Some True\<rparr>
                else no_filters);
          f2 = (if str_includes q ''single word'' then f1\<lparr>f_word_count := Some (Num 1)\<rparr> else f1);
          f3 = (if str_includes q ''longer than'' then
                  (case rx_match re_longer_than q of
                     None \<Rightarrow> f2
                   | Some cap \<Rightarrow>
                       f2\<lparr>f_min_length := Some (num_add_int (parseInt (toString cap) None) 1)\<rparr>)
                else f2);
          f4 = (if str_includes q ''containing the letter'' then
                  (case rx_match re_letter q of
                     None \<Rightarrow> f3
                   | Some cap \<Rightarrow> f3\<lparr>f_contains_character := cap\<rparr>)
                else f3)
      in f4)"

definition p0_interpret_query :: "string \<Rightarrow> error + filters" where
  "p0_interpret_query query =
     (let filters = p0_parsed_filters query
      in if keys_count filters = 0 then Inl Unable_to_parse else Inr filters)"

definition p0_apply_parsed :: "filters \<Rightarrow> p0_record list \<Rightarrow> p0_record list" where
  "p0_apply_parsed filters results =
     (let r1 = (case f_is_palindrome filters of None \<Rightarrow> results
                | Some b \<Rightarrow> filter (\<lambda>r. p0_is_palindrome (r_properties r)) results);
          r2 = (case f_word_count filters of None \<Rightarrow> r1
                | Some n \<Rightarrow> filter (\<lambda>r. num_eq (int (p0_word_count (r_properties r))) n) r1);
          r3 = (case f_min_length filters of None \<Rightarrow> r2
                | Some n \<Rightarrow> filter (\<lambda>r. num_ge (int (p0_length (r_properties r))) n) r2);
          r4 = (case f_contains_character filters of None \<Rightarrow> r3
                | Some ch \<Rightarrow> filter (\<lambda>r. str_includes (r_value r) ch) r3)
      in r4)"

definition p0_filter_by_natural_language ::
  "p0_store \<Rightarrow> string option \<Rightarrow> p0_record response" where
  "p0_filter_by_natural_language strDB q =
     (case q of
        None \<Rightarrow> Failure 400 Missing_query
      | Some query \<Rightarrow>
          (if query = [] then Failure 400 Missing_query
           else case p0_interpret_query query of
                  Inl err \<Rightarrow> Failure 400 err
                | Inr filters \<Rightarrow>
                    (let results = p0_apply_parsed filters (map_values strDB)
                     in Interpreted results (length results) query filters)))"

fun p0_handle ::
  "(string \<Rightarrow> string) \<Rightarrow> string \<Rightarrow> request \<Rightarrow> p0_store \<Rightarrow> p0_record response \<times> p0_store" where
  "p0_handle h now (POST_strings body) strDB = p0_post_strings h now strDB body"
| "p0_handle h now (GET_string v) strDB = (p0_get_string h strDB v, strDB)"
| "p0_handle h now (GET_strings q) strDB = (p0_list_strings strDB q, strDB)"
| "p0_handle h now (GET_natural_language q) strDB = (p0_filter_by_natural_language strDB q, strDB)"
| "p0_handle h now (DELETE_string v) strDB = p0_delete_string h strDB v"

fun p0_run :: "(string \<Rightarrow> string) \<Rightarrow> (string \<times> request) list \<Rightarrow> p0_store \<Rightarrow> p0_store" where
  "p0_run h [] strDB = strDB"
| "p0_run h ((now, req) # reqs) strDB = p0_run h reqs (snd (p0_handle h now req strDB))"

section \<open>Auxiliary notions for the statements\<close>

fun is_delete :: "request \<Rightarrow> bool" where
  "is_delete (DELETE_string v) = True"
| "is_delete req = False"

definition new_entry :: "(string \<Rightarrow> string) \<Rightarrow> string \<Rightarrow> string \<Rightarrow> entry" where
  \<comment> \<open>the entry that \<^verbatim>\<open>POST /strings\<close> builds for \<open>v\<close> at time \<open>now\<close>\<close>
  "new_entry h now v =
     \<lparr> e_id = h v, e_value = v, e_properties = analyzeString h v, e_created_at = now \<rparr>"

definition p0_new_record :: "(string \<Rightarrow> string) \<Rightarrow> string \<Rightarrow> string \<Rightarrow> p0_record" where
  "p0_new_record h now v =
     \<lparr> r_id = h v, r_value = v, r_properties = p0_analyzeString h v, r_created_at = now \<rparr>"

fun count_word_starts :: "bool \<Rightarrow> string \<Rightarrow> nat" where
  \<comment> \<open>the number of words of a string, counted where they start: at a character that is
      not white space and follows white space or, when \<open>inw\<close> is false, begins the string\<close>
  "count_word_starts inw [] = 0"
| "count_word_starts inw (c # cs) =
     (if isWhiteSpace c then count_word_starts False cs
      else (if inw then 0 else 1) + count_word_starts True cs)"

text \<open>
  The filter engine of the specification works on a typed filter record: a record passes
  when it satisfies the predicate of every field that is present.
\<close>

definition matches :: "filters \<Rightarrow> entry \<Rightarrow> bool" where
  "matches f r \<longleftrightarrow>
     (case f_is_palindrome f of None \<Rightarrow> True
      | Some b \<Rightarrow> p_is_palindrome (e_properties r) = b) \<and>
     (case f_min_length f of None \<Rightarrow> True
      | Some n \<Rightarrow> num_ge (int (p_length (e_properties r))) n) \<and>
     (case f_max_length f of None \<Rightarrow> True
      | Some n \<Rightarrow> num_le (int (p_length (e_properties r))) n) \<and>
     (case f_word_count f of None \<Rightarrow> True
      | Some n \<Rightarrow> num_eq (int (p_word_count (e_properties r))) n) \<and>
     (case f_contains_character f of None \<Rightarrow> True
      | Some ch \<Rightarrow> str_includes (e_value r) ch)"

definition p0_matches :: "filters \<Rightarrow> p0_record \<Rightarrow> bool" where
  "p0_matches f r \<longleftrightarrow>
     (case f_is_palindrome f of None \<Rightarrow> True
      | Some b \<Rightarrow> p0_is_palindrome (r_properties r) = b) \<and>
     (case f_min_length f of None \<Rightarrow> True
      | Some n \<Rightarrow> num_ge (int (p0_length (r_properties r))) n) \<and>
     (case f_max_length f of None \<Rightarrow> True
      | Some n \<Rightarrow> num_le (int (p0_length (r_properties r))) n) \<and>
     (case f_word_count f of None \<Rightarrow> True
      | Some n \<Rightarrow> num_eq (int (p0_word_count (r_properties r))) n) \<and>
     (case f_contains_character f of None \<Rightarrow> True
      | Some ch \<Rightarrow> str_includes (r_value r) ch)"

text \<open>
  The predicates of the fields that are present, one by one, and their application one
  after the other in a given order.
\<close>

definition predicates :: "filters \<Rightarrow> (entry \<Rightarrow> bool) list" where
  "predicates f =
     (case f_is_palindrome f of None \<Rightarrow> []
      | Some b \<Rightarrow> [\<lambda>r. p_is_palindrome (e_properties r) = b]) @
     (case f_min_length f of None \<Rightarrow> []
      | Some n \<Rightarrow> [\<lambda>r. num_ge (int (p_length (e_properties r))) n]) @
     (case f_max_length f of None \<Rightarrow> []
      | Some n \<Rightarrow> [\<lambda>r. num_le (int (p_length (e_properties r))) n]) @
     (case f_word_count f of None \<Rightarrow> []
      | Some n \<Rightarrow> [\<lambda>r. num_eq (int (p_word_count (e_properties r))) n]) @
     (case f_contains_character f of None \<Rightarrow> []
      | Some ch \<Rightarrow> [\<lambda>r. str_includes (e_value r) ch])"

definition p0_predicates :: "filters \<Rightarrow> (p0_record \<Rightarrow> bool) list" where
  "p0_predicates f =
     (case f_is_palindrome f of None \<Rightarrow> []
      | Some b \<Rightarrow> [\<lambda>r. p0_is_palindrome (r_properties r) = b]) @
     (case f_min_length f of None \<Rightarrow> []
      | Some n \<Rightarrow> [\<lambda>r. num_ge (int (p0_length (r_properties r))) n]) @
     (case f_max_length f of None \<Rightarrow> []
      | Some n \<Rightarrow> [\<lambda>r. num_le (int (p0_length (r_properties r))) n]) @
     (case f_word_count f of None \<Rightarrow> []
      | Some n \<Rightarrow> [\<lambda>r. num_eq (int (p0_word_count (r_properties r))) n]) @
     (case f_contains_character f of None \<Rightarrow> []
      | Some ch \<Rightarrow> [\<lambda>r. str_includes (r_value r) ch])"

fun apply_in_order :: "('a \<Rightarrow> bool) list \<Rightarrow> 'a list \<Rightarrow> 'a list" where
  "apply_in_order [] rs = rs"
| "apply_in_order (p # ps) rs = apply_in_order ps (filter p rs)"

text \<open>
  The typed filter record that the query parameters of \<^verbatim>\<open>GET /strings\<close> stand for, and
  when \<^verbatim>\<open>index.js\<close> takes them as well-formed.
\<close>

definition typed_spec :: "query \<Rightarrow> filters" where
  "typed_spec q =
     \<lparr> f_is_palindrome = map_option (\<lambda>raw. toLowerCase raw = ''true'') (q_is_palindrome q),
       f_min_length = map_option (\<lambda>raw. parseInt raw (Some 10)) (q_min_length q),
       f_max_length = map_option (\<lambda>raw. parseInt raw (Some 10)) (q_max_length q),
       f_word_count = map_option (\<lambda>raw. parseInt raw (Some 10)) (q_word_count q),
       f_contains_character = q_contains_character q \<rparr>"

definition well_formed :: "query \<Rightarrow> bool" where
  "well_formed q \<longleftrightarrow>
     (case q_is_palindrome q of None \<Rightarrow> True
      | Some raw \<Rightarrow> toLowerCase raw = ''true'' \<or> toLowerCase raw = ''false'') \<and>
     (case q_min_length q of None \<Rightarrow> True | Some raw \<Rightarrow> \<not> isNaN (parseInt raw (Some 10))) \<and>
     (case q_max_length q of None \<Rightarrow> True | Some raw \<Rightarrow> \<not> isNaN (parseInt raw (Some 10))) \<and>
     (case q_word_count q of None \<Rightarrow> True | Some raw \<Rightarrow> \<not> isNaN (parseInt raw (Some 10))) \<and>
     (case q_contains_character q of None \<Rightarrow> True | Some ch \<Rightarrow> ch \<noteq> [])"

definition p0_typed_spec :: "query \<Rightarrow> filters" where
  \<comment> \<open>the second server file takes every query\<close>
  "p0_typed_spec q =
     \<lparr> f_is_palindrome = map_option (\<lambda>raw. raw = ''true'') (q_is_palindrome q),
       f_min_length = map_option (\<lambda>raw. parseInt raw None) (q_min_length q),
       f_max_length = map_option (\<lambda>raw. parseInt raw None) (q_max_length q),
       f_word_count = map_option (\<lambda>raw. parseInt raw None) (q_word_count q),
       f_contains_character = q_contains_character q \<rparr>"

definition no_query :: query where
  \<comment> \<open>\<^verbatim>\<open>GET /strings\<close> without parameters\<close>
  "no_query = \<lparr> q_is_palindrome = None, q_min_length = None, q_max_length = None,
                q_word_count = None, q_contains_character = None \<rparr>"

definition toy_digest :: "string \<Rightarrow> string" where
  \<comment> \<open>a digest for the concrete examples: injective, as SHA-256 is on the strings of the
      examples\<close>
  "toy_digest v = v"

text \<open>The scenario of the specification: three inserts, then a listing with two filters.\<close>

definition insert_aa_aaa_ab :: "string \<Rightarrow> string \<Rightarrow> string \<Rightarrow> (string \<times> request) list" where
  "insert_aa_aaa_ab t1 t2 t3 =
     [(t1, POST_strings (Some (JString ''aa''))),
      (t2, POST_strings (Some (JString ''aaa''))),
      (t3, POST_strings (Some (JString ''ab'')))]"

definition min2_contains_a :: query where
  \<comment> \<open>\<^verbatim>\<open>GET /strings?min_length=2&contains_character=a\<close>\<close>
  "min2_contains_a = no_query\<lparr>q_min_length := Some ''2'', q_contains_character := Some ''a''\<rparr>"

text \<open>The decimal numeral of a natural number, as it is written in a query.\<close>

definition digit_of :: "nat \<Rightarrow> char" where
  "digit_of d = ''0123456789'' ! d"

function decimal :: "nat \<Rightarrow> string" where
  "decimal n = (if n < 10 then [digit_of n] else decimal (n div 10) @ [digit_of (n mod 10)])"
  by pat_completeness auto
termination
  by (relation "measure (\<lambda>n. n)") auto

declare decimal.simps [simp del]

text \<open>None of the patterns of the natural-language route is found in a query.\<close>

definition no_pattern_fires :: "string \<Rightarrow> bool" where
  "no_pattern_fires original \<longleftrightarrow>
     (let low = toLowerCase original
      in \<not> rx_test re_single_word low \<and> \<not> rx_test re_palindrome low \<and>
         rx_match re_longer_than low = None \<and> rx_match re_at_least low = None \<and>
         \<not> rx_test re_first_vowel low \<and> rx_match re_containing low = None)"

definition p0_no_pattern_fires :: "string \<Rightarrow> bool" where
  "p0_no_pattern_fires query \<longleftrightarrow>
     (let q = toLowerCase query
      in \<not> str_includes q ''palindromic'' \<and> \<not> str_includes q ''single word'' \<and>
         \<not> (str_includes q ''longer than'' \<and> rx_match re_longer_than q \<noteq> None) \<and>
         \<not> (str_includes q ''containing the letter'' \<and> rx_match re_letter q \<noteq> None))"

text \<open>How a piece of text begins and ends, and where a regular expression can match.\<close>

definition starts_with :: "(char \<Rightarrow> bool) \<Rightarrow> string \<Rightarrow> bool" where
  "starts_with P s = (case s of [] \<Rightarrow> False | c # _ \<Rightarrow> P c)"

definition ends_with :: "(char \<Rightarrow> bool) \<Rightarrow> string \<Rightarrow> bool" where
  "ends_with P s \<longleftrightarrow> s \<noteq> [] \<and> P (last s)"

definition char_before :: "char option \<Rightarrow> string \<Rightarrow> char option" where
  \<comment> \<open>the character before the position that follows \<open>pre\<close>\<close>
  "char_before p pre = (if pre = [] then p else Some (last pre))"

definition begins_with_literal :: "rx \<Rightarrow> string \<Rightarrow> bool" where
  \<comment> \<open>every match of \<open>r\<close> begins with the text \<open>l\<close>\<close>
  "begins_with_literal r l \<longleftrightarrow> (\<forall>p t cap. rx_step r (p, t, cap) \<noteq> [] \<longrightarrow> prefix l t)"

text \<open>
  A typed filter record as the specification has it (the integers not negative and below
  \<open>2^53\<close>, the text to be contained not empty), and the query parameters that carry it.
\<close>

definition natural_number :: "number \<Rightarrow> bool" where
  "natural_number x = (case x of Num n \<Rightarrow> 0 \<le> n \<and> n < 2 ^ 53 | _ \<Rightarrow> False)"

definition show_number :: "number \<Rightarrow> string" where
  "show_number x = (case x of Num n \<Rightarrow> decimal (nat n) | _ \<Rightarrow> ''NaN'')"

definition typed_ok :: "filters \<Rightarrow> bool" where
  "typed_ok f \<longleftrightarrow>
     (case f_min_length f of None \<Rightarrow> True | Some x \<Rightarrow> natural_number x) \<and>
     (case f_max_length f of None \<Rightarrow> True | Some x \<Rightarrow> natural_number x) \<and>
     (case f_word_count f of None \<Rightarrow> True | Some x \<Rightarrow> natural_number x) \<and>
     (case f_contains_character f of None \<Rightarrow> True | Some ch \<Rightarrow> ch \<noteq> [])"

definition query_of :: "filters \<Rightarrow> query" where
  "query_of f =
     \<lparr> q_is_palindrome = map_option (\<lambda>b. if b then ''true'' else ''false'') (f_is_palindrome f),
       q_min_length = map_option show_number (f_min_length f),
       q_max_length = map_option show_number (f_max_length f),
       q_word_count = map_option show_number (f_word_count f),
       q_contains_character = f_contains_character f \<rparr>"

text \<open>
  What the routes keep true of the store: a key is held once (as in every \<^verbatim>\<open>Map\<close>), and
  each record is stored under its \<^verbatim>\<open>id\<close>, which is the digest of its value, with the
  properties of its value.
\<close>

definition store_ok :: "(string \<Rightarrow> string) \<Rightarrow> store \<Rightarrow> bool" where
  "store_ok h store \<longleftrightarrow>
     distinct (map fst store) \<and>
     (\<forall>(k, e) \<in> set store. k = e_id e \<and> e_id e = h (e_value e) \<and>
        e_properties e = analyzeString h (e_value e))"

section \<open>Characters and numerals\<close>

text \<open>Lower-casing adds 0x20 to the code of an upper-case letter.\<close>

lemma toLowerChar_code:
  "isUpper c \<Longrightarrow> (of_char (toLowerChar c) :: nat) = of_char c + 32"
proof (cases c)
  case (Char b0 b1 b2 b3 b4 b5 b6 b7)
  assume "isUpper c"
  with Char show ?thesis
    by (cases b0; cases b1; cases b2; cases b3; cases b4; cases b5; cases b6; cases b7)
       (simp_all add: toLowerChar_def isUpper_def isAsciiUpper_def less_eq_char_def)
qed


text \<open>
  \<^verbatim>\<open>parseInt\<close> reads the decimal numeral of \<open>n\<close> as \<open>n\<close>, rounded to a Number; up to
  \<open>2^53\<close> nothing is rounded.
\<close>

lemma below_ten:
  "d < (10 :: nat) \<Longrightarrow>
   d = 0 \<or> d = 1 \<or> d = 2 \<or> d = 3 \<or> d = 4 \<or> d = 5 \<or> d = 6 \<or> d = 7 \<or> d = 8 \<or> d = 9"
  by arith

lemma digit_of_props:
  assumes "d < 10"
  shows "isDigit (digit_of d)" and "digitValue (digit_of d) = Some d"
  using below_ten [OF assms]
  by (auto simp: digit_of_def isDigit_def digitValue_def)

lemma isDigit_facts:
  assumes "isDigit c"
  shows "\<not> isWhiteSpace c" and "c \<noteq> CHR ''+''" and "c \<noteq> CHR ''-''" and "c \<noteq> CHR ''x''"
    and "c \<noteq> CHR ''X''" and "isRadixDigit 10 c" and "toLowerChar c = c"
proof -
  from assms have lo: "48 \<le> (of_char c :: nat)" and hi: "(of_char c :: nat) \<le> 57"
    by (simp_all add: isDigit_def less_eq_char_def)
  show "\<not> isWhiteSpace c" using lo hi by (auto simp: isWhiteSpace_def)
  show "c \<noteq> CHR ''+''" "c \<noteq> CHR ''-''" using lo by auto
  show "c \<noteq> CHR ''x''" "c \<noteq> CHR ''X''" using hi by auto
  show "isRadixDigit 10 c" using assms hi by (simp add: isRadixDigit_def digitValue_def)
  show "toLowerChar c = c" using hi
    by (auto simp: toLowerChar_def isUpper_def isAsciiUpper_def less_eq_char_def)
qed

lemma decimal_digits: "decimal n \<noteq> [] \<and> (\<forall>c \<in> set (decimal n). isDigit c)"
proof (induction n rule: decimal.induct)
  case (1 n)
  show ?case
  proof (cases "n < 10")
    case True
    then show ?thesis by (simp add: decimal.simps [of n] digit_of_props)
  next
    case False
    with 1 show ?thesis by (simp add: decimal.simps [of n] digit_of_props)
  qed
qed

lemma digitsValue_snoc:
  "digitsValue R (z @ [c]) = digitsValue R z * int R + int (the (digitValue c))"
  by (simp add: digitsValue_def)

lemma digitsValue_decimal: "digitsValue 10 (decimal n) = int n"
proof (induction n rule: decimal.induct)
  case (1 n)
  show ?case
  proof (cases "n < 10")
    case True
    then show ?thesis by (simp add: decimal.simps [of n] digit_of_props digitsValue_def)
  next
    case False
    with 1 have "digitsValue 10 (decimal (n div 10)) = int (n div 10)" by simp
    with False show ?thesis
      by (simp add: decimal.simps [of n] digitsValue_snoc digit_of_props) presburger
  qed
qed

lemma parseInt_digits:
  assumes "z \<noteq> []" and "\<forall>c \<in> set z. isDigit c"
  shows "parseInt z (Some 10) = to_number (digitsValue 10 z)"
    and "parseInt z None = to_number (digitsValue 10 z)"
proof -
  obtain c cs where z: "z = c # cs" using assms(1) by (cases z) auto
  with assms(2) have c: "isDigit c" by simp
  have dw: "dropWhile isWhiteSpace z = z" using z c by (simp add: isDigit_facts)
  have tw: "takeWhile (isRadixDigit 10) z = z" using assms(2) by (simp add: isDigit_facts)
  have nohex: "\<not> prefix ''0x'' z" "\<not> prefix ''0X'' z"
  proof -
    show "\<not> prefix ''0x'' z"
    proof
      assume "prefix ''0x'' z"
      then obtain r where "z = ''0x'' @ r" by (auto simp: prefix_def)
      with assms(2) have "isDigit (CHR ''x'')" by simp
      then show False by (simp add: isDigit_def)
    qed
    show "\<not> prefix ''0X'' z"
    proof
      assume "prefix ''0X'' z"
      then obtain r where "z = ''0X'' @ r" by (auto simp: prefix_def)
      with assms(2) have "isDigit (CHR ''X'')" by simp
      then show False by (simp add: isDigit_def)
    qed
  qed
  have hdz: "hd z \<noteq> CHR ''+''" "hd z \<noteq> CHR ''-''" using z c by (simp_all add: isDigit_facts)
  show "parseInt z (Some 10) = to_number (digitsValue 10 z)"
    using assms(1) hdz by (simp add: parseInt_def dw tw Let_def)
  show "parseInt z None = to_number (digitsValue 10 z)"
    using assms(1) hdz nohex by (simp add: parseInt_def dw tw Let_def)
qed

lemma parseInt_decimal:
  "parseInt (decimal n) (Some 10) = to_number (int n)"
  "parseInt (decimal n) None = to_number (int n)"
  using parseInt_digits [of "decimal n"] decimal_digits [of n]
  by (simp_all add: digitsValue_decimal)

lemma to_number_exact:
  assumes "0 \<le> n" and "n \<le> 2 ^ 53"
  shows "to_number n = Num n"
proof (cases "n < 2 ^ 53")
  case True
  with assms show ?thesis by (simp add: to_number_def round_mag_def)
next
  case False
  have "to_number (2 ^ 53) = Num (2 ^ 53)" by code_simp
  moreover from False assms have "n = 2 ^ 53" by simp
  ultimately show ?thesis by simp
qed

section \<open>The store operations\<close>

lemma map_has_get: "map_has m k \<longleftrightarrow> map_get m k \<noteq> None"
  by (simp add: map_has_def map_get_def map_of_eq_None_iff)

lemma map_get_set: "map_get (map_set m k v) k' = (if k' = k then Some v else map_get m k')"
proof (cases "map_has m k")
  case False
  then have "map_of m k = None"
    by (simp add: map_has_def map_of_eq_None_iff)
  then have "map_of (m @ [(k, v)]) k' = (if k' = k then Some v else map_of m k')"
    by (cases "map_of m k'") (auto simp: map_add_def)
  with False show ?thesis
    by (simp add: map_set_def map_get_def)
next
  case True
  have "map_of (map (\<lambda>(k', v'). if k' = k then (k', v) else (k', v')) m) k'
        = (if k' = k then (if k \<in> fst ` set m then Some v else None) else map_of m k')"
    by (induction m) (auto simp: image_iff rev_bexI)
  with True show ?thesis
    by (simp add: map_set_def map_get_def map_has_def)
qed

lemma map_has_delete: "map_has (map_delete m k) k' \<longleftrightarrow> k' \<noteq> k \<and> map_has m k'"
  by (auto simp: map_has_def map_delete_def)

lemma map_get_delete: "map_get (map_delete m k) k' = (if k' = k then None else map_get m k')"
  by (induction m) (auto simp: map_get_def map_delete_def)

lemma map_has_set: "map_has (map_set m k v) k' \<longleftrightarrow> k' = k \<or> map_has m k'"
  by (simp add: map_has_get map_get_set)

lemma map_delete_absent: "\<not> map_has m k \<Longrightarrow> map_delete m k = m"
  by (induction m) (auto simp: map_has_def map_delete_def)

lemma post_strings_fresh:
  "\<not> map_has store (h s) \<Longrightarrow>
   post_strings h now store (Some (JString s)) = (Created (new_entry h now s), store @ [(h s, new_entry h now s)])"
  by (simp add: post_strings_def new_entry_def map_set_def Let_def)

lemma post_strings_present:
  "map_has store (h s) \<Longrightarrow>
   post_strings h now store (Some (JString s)) = (Failure 409 Already_exists, store)"
  by (simp add: post_strings_def)

lemma p0_sha [simp]: "p0_sha_256_hash (p0_analyzeString h v) = h v"
  by (simp add: p0_analyzeString_def Let_def)

lemma p0_post_strings_fresh:
  "\<not> map_has strDB (h s) \<Longrightarrow>
   p0_post_strings h now strDB (Some (JString s)) =
     (Created (p0_new_record h now s), strDB @ [(h s, p0_new_record h now s)])"
  by (simp add: p0_post_strings_def p0_new_record_def map_set_def Let_def)

lemma p0_post_strings_present:
  "map_has strDB (h s) \<Longrightarrow>
   p0_post_strings h now strDB (Some (JString s)) = (Failure 409 Already_exists, strDB)"
  by (simp add: p0_post_strings_def Let_def)

lemma handle_keeps:
  assumes "\<not> is_delete req" and "map_get st k = Some e"
  shows "map_get (snd (handle h now req st)) k = Some e"
proof (cases req)
  case (POST_strings body)
  show ?thesis
  proof (cases body)
    case None
    with POST_strings assms show ?thesis by (simp add: post_strings_def)
  next
    case (Some v)
    show ?thesis
    proof (cases v)
      case JOther
      with Some POST_strings assms show ?thesis by (simp add: post_strings_def)
    next
      case (JString t)
      show ?thesis
      proof (cases "map_has st (h t)")
        case True
        with JString Some POST_strings assms show ?thesis by (simp add: post_strings_present)
      next
        case False
        with assms have "k \<noteq> h t" by (auto simp: map_has_get)
        with False JString Some POST_strings assms show ?thesis
          using map_get_set [of st "h t" "new_entry h now t" k]
          by (simp add: post_strings_fresh map_set_def)
      qed
    qed
  qed
qed (use assms in auto)

lemma p0_handle_keeps:
  assumes "\<not> is_delete req" and "map_get st k = Some e"
  shows "map_get (snd (p0_handle h now req st)) k = Some e"
proof (cases req)
  case (POST_strings body)
  show ?thesis
  proof (cases body)
    case None
    with POST_strings assms show ?thesis by (simp add: p0_post_strings_def)
  next
    case (Some v)
    show ?thesis
    proof (cases v)
      case JOther
      with Some POST_strings assms show ?thesis by (simp add: p0_post_strings_def)
    next
      case (JString t)
      show ?thesis
      proof (cases "map_has st (h t)")
        case True
        with JString Some POST_strings assms show ?thesis by (simp add: p0_post_strings_present)
      next
        case False
        with assms have "k \<noteq> h t" by (auto simp: map_has_get)
        with False JString Some POST_strings assms show ?thesis
          using map_get_set [of st "h t" "p0_new_record h now t" k]
          by (simp add: p0_post_strings_fresh map_set_def)
      qed
    qed
  qed
qed (use assms in auto)

lemma run_keeps:
  "\<forall>x \<in> set reqs. \<not> is_delete (snd x) \<Longrightarrow> map_get st k = Some e \<Longrightarrow>
   map_get (run h reqs st) k = Some e"
proof (induction reqs arbitrary: st)
  case Nil
  then show ?case by simp
next
  case (Cons x reqs)
  obtain now req where x: "x = (now, req)" by (cases x)
  with Cons.prems have "map_get (snd (handle h now req st)) k = Some e"
    by (simp add: handle_keeps)
  with Cons x show ?case by simp
qed

lemma p0_run_keeps:
  "\<forall>x \<in> set reqs. \<not> is_delete (snd x) \<Longrightarrow> map_get st k = Some e \<Longrightarrow>
   map_get (p0_run h reqs st) k = Some e"
proof (induction reqs arbitrary: st)
  case Nil
  then show ?case by simp
next
  case (Cons x reqs)
  obtain now req where x: "x = (now, req)" by (cases x)
  with Cons.prems have "map_get (snd (p0_handle h now req st)) k = Some e"
    by (simp add: p0_handle_keeps)
  with Cons x show ?case by simp
qed


section \<open>Content addressing\<close>

text \<open>
  Claim C2. For every string \<open>s\<close> and every store that holds nothing under the digest of
  \<open>s\<close>: inserting \<open>s\<close> answers 201 with a record whose value is \<open>s\<close>; looking \<open>s\<close> up then
  finds that record, and still finds it after any sequence of requests that are not
  deletions; inserting \<open>s\<close> again, at once or after such a sequence, answers 409 and leaves
  the store as it was. Both servers behave so.
\<close>

theorem content_addressing:
  assumes "\<forall>x \<in> set reqs. \<not> is_delete (snd x)"
  shows
   "(\<not> map_has store (h s) \<longrightarrow>
      (let e = new_entry h t1 s;
           st1 = snd (post_strings h t1 store (Some (JString s)));
           st2 = run h reqs st1
       in post_strings h t1 store (Some (JString s)) = (Created e, st1) \<and> e_value e = s \<and>
          get_string h st1 s = Found e \<and> get_string h st2 s = Found e \<and>
          post_strings h t2 st1 (Some (JString s)) = (Failure 409 Already_exists, st1) \<and>
          post_strings h t2 st2 (Some (JString s)) = (Failure 409 Already_exists, st2))) \<and>
    (\<not> map_has strDB (h s) \<longrightarrow>
      (let e = p0_new_record h t1 s;
           st1 = snd (p0_post_strings h t1 strDB (Some (JString s)));
           st2 = p0_run h reqs st1
       in p0_post_strings h t1 strDB (Some (JString s)) = (Created e, st1) \<and> r_value e = s \<and>
          p0_get_string h st1 s = Found e \<and> p0_get_string h st2 s = Found e \<and>
          p0_post_strings h t2 st1 (Some (JString s)) = (Failure 409 Already_exists, st1) \<and>
          p0_post_strings h t2 st2 (Some (JString s)) = (Failure 409 Already_exists, st2)))"
proof (intro conjI impI)
  assume fresh: "\<not> map_has store (h s)"
  define e where "e = new_entry h t1 s"
  define st1 where "st1 = store @ [(h s, e)]"
  have post: "post_strings h t1 store (Some (JString s)) = (Created e, st1)"
    using fresh by (simp add: post_strings_fresh e_def st1_def)
  have g1: "map_get st1 (h s) = Some e"
    using fresh map_get_set [of store "h s" e "h s"] by (simp add: map_set_def st1_def)
  then have g2: "map_get (run h reqs st1) (h s) = Some e"
    using assms by (rule run_keeps [rotated])
  have "map_has st1 (h s)" and "map_has (run h reqs st1) (h s)"
    using g1 g2 by (simp_all add: map_has_get)
  then show "let e = new_entry h t1 s;
           st1 = snd (post_strings h t1 store (Some (JString s)));
           st2 = run h reqs st1
       in post_strings h t1 store (Some (JString s)) = (Created e, st1) \<and> e_value e = s \<and>
          get_string h st1 s = Found e \<and> get_string h st2 s = Found e \<and>
          post_strings h t2 st1 (Some (JString s)) = (Failure 409 Already_exists, st1) \<and>
          post_strings h t2 st2 (Some (JString s)) = (Failure 409 Already_exists, st2)"
    using post g1 g2
    by (simp add: Let_def post_strings_present get_string_def e_def [symmetric])
       (simp add: e_def new_entry_def)
next
  assume fresh: "\<not> map_has strDB (h s)"
  define e where "e = p0_new_record h t1 s"
  define st1 where "st1 = strDB @ [(h s, e)]"
  have post: "p0_post_strings h t1 strDB (Some (JString s)) = (Created e, st1)"
    using fresh by (simp add: p0_post_strings_fresh e_def st1_def)
  have g1: "map_get st1 (h s) = Some e"
    using fresh map_get_set [of strDB "h s" e "h s"] by (simp add: map_set_def st1_def)
  then have g2: "map_get (p0_run h reqs st1) (h s) = Some e"
    using assms by (rule p0_run_keeps [rotated])
  have "map_has st1 (h s)" and "map_has (p0_run h reqs st1) (h s)"
    using g1 g2 by (simp_all add: map_has_get)
  then show "let e = p0_new_record h t1 s;
           st1 = snd (p0_post_strings h t1 strDB (Some (JString s)));
           st2 = p0_run h reqs st1
       in p0_post_strings h t1 strDB (Some (JString s)) = (Created e, st1) \<and> r_value e = s \<and>
          p0_get_string h st1 s = Found e \<and> p0_get_string h st2 s = Found e \<and>
          p0_post_strings h t2 st1 (Some (JString s)) = (Failure 409 Already_exists, st1) \<and>
          p0_post_strings h t2 st2 (Some (JString s)) = (Failure 409 Already_exists, st2)"
    using post g1 g2
    by (simp add: Let_def p0_post_strings_present p0_get_string_def e_def [symmetric])
       (simp add: e_def p0_new_record_def)
qed


theorem content_addressing_witness:
  "\<not> is_delete (GET_string ''level'') \<and>
   \<not> is_delete (POST_strings (Some (JString ''noon''))) \<and>
   \<not> map_has ([] :: store) ''madam'' \<and>
   get_string (\<lambda>v. v)
     (run (\<lambda>v. v) [(''t'', GET_string ''level''), (''u'', POST_strings (Some (JString ''noon'')))]
        (snd (post_strings (\<lambda>v. v) ''t1'' [] (Some (JString ''madam''))))) ''madam''
     = Found (new_entry (\<lambda>v. v) ''t1'' ''madam'') \<and>
   \<not> map_has ([] :: p0_store) ''madam'' \<and>
   p0_get_string (\<lambda>v. v)
     (p0_run (\<lambda>v. v) [(''t'', GET_string ''level''), (''u'', POST_strings (Some (JString ''noon'')))]
        (snd (p0_post_strings (\<lambda>v. v) ''t1'' [] (Some (JString ''madam''))))) ''madam''
     = Found (p0_new_record (\<lambda>v. v) ''t1'' ''madam'')"
  using content_addressing
    [of "[(''t'', GET_string ''level''), (''u'', POST_strings (Some (JString ''noon'')))]"
        "[]" "\<lambda>v. v" "''madam''" "''t1''" "''t2''" "[]"]
  by (simp add: Let_def map_has_def)

section \<open>Deletion\<close>

text \<open>
  Claim C7. For every string \<open>s\<close> and every store in which deleting \<open>s\<close> succeeds (204):
  in the store that results, looking \<open>s\<close> up answers 404 and deleting \<open>s\<close> again answers 404
  (and changes nothing). Both servers behave so.
\<close>

theorem delete_then_not_found:
  "(delete_string h store s = (Deleted, store') \<longrightarrow>
      get_string h store' s = Failure 404 Not_found \<and>
      delete_string h store' s = (Failure 404 Not_found, store')) \<and>
   (p0_delete_string h strDB s = (Deleted, strDB') \<longrightarrow>
      p0_get_string h strDB' s = Failure 404 Not_found \<and>
      p0_delete_string h strDB' s = (Failure 404 Not_found, strDB'))"
  by (auto simp: delete_string_def get_string_def p0_delete_string_def p0_get_string_def
        map_has_delete map_get_delete Let_def split: if_splits)

definition entry_of :: "(string \<Rightarrow> string) \<Rightarrow> string \<Rightarrow> string \<Rightarrow> entry" where
 "entry_of h now v = \<lparr> e_id = h v, e_value = v, e_properties = analyzeString h v, e_created_at = now \<rparr>"



theorem delete_then_not_found_witness:
  "delete_string (\<lambda>v. v) [(''abc'', new_entry (\<lambda>v. v) ''t0'' ''abc'')] ''abc'' = (Deleted, []) \<and>
   get_string (\<lambda>v. v) [] ''abc'' = Failure 404 Not_found \<and>
   delete_string (\<lambda>v. v) [] ''abc'' = (Failure 404 Not_found, []) \<and>
   p0_delete_string (\<lambda>v. v) [(''abc'', p0_new_record (\<lambda>v. v) ''t0'' ''abc'')] ''abc''
     = (Deleted, []) \<and>
   p0_get_string (\<lambda>v. v) [] ''abc'' = Failure 404 Not_found \<and>
   p0_delete_string (\<lambda>v. v) [] ''abc'' = (Failure 404 Not_found, [])"
  using delete_then_not_found
    [of "\<lambda>v. v" "[(''abc'', new_entry (\<lambda>v. v) ''t0'' ''abc'')]" "''abc''" "[]"
        "[(''abc'', p0_new_record (\<lambda>v. v) ''t0'' ''abc'')]" "[]"]
  by (simp add: delete_string_def p0_delete_string_def map_has_def map_delete_def)

section \<open>What each request does to the store\<close>

lemma post_strings_cases:
  "post_strings h now store body = (r, store') \<Longrightarrow>
   (\<exists>v. body = Some (JString v) \<and> \<not> map_has store (h v) \<and> r = Created (new_entry h now v) \<and>
        store' = store @ [(h v, new_entry h now v)]) \<or>
   ((\<exists>code err. r = Failure code err) \<and> store' = store)"
  by (auto simp: post_strings_def new_entry_def map_set_def Let_def
        split: option.splits jsvalue.splits if_splits)

lemma p0_post_strings_cases:
  "p0_post_strings h now strDB body = (r, strDB') \<Longrightarrow>
   (\<exists>v. body = Some (JString v) \<and> \<not> map_has strDB (h v) \<and> r = Created (p0_new_record h now v) \<and>
        strDB' = strDB @ [(h v, p0_new_record h now v)]) \<or>
   ((\<exists>code err. r = Failure code err) \<and> strDB' = strDB)"
  by (auto simp: p0_post_strings_def p0_new_record_def map_set_def Let_def
        split: option.splits jsvalue.splits if_splits)

lemma delete_string_cases:
  "delete_string h store v = (r, store') \<Longrightarrow>
   (map_has store (h v) \<and> r = Deleted \<and> store' = map_delete store (h v)) \<or>
   (r = Failure 404 Not_found \<and> store' = store)"
  by (auto simp: delete_string_def Let_def split: if_splits)

lemma p0_delete_string_cases:
  "p0_delete_string h strDB v = (r, strDB') \<Longrightarrow>
   (map_has strDB (h v) \<and> r = Deleted \<and> strDB' = map_delete strDB (h v)) \<or>
   (r = Failure 404 Not_found \<and> strDB' = strDB)"
  by (auto simp: p0_delete_string_def Let_def split: if_splits)

lemma get_string_cases: "(\<exists>e. get_string h store v = Found e) \<or> get_string h store v = Failure 404 Not_found"
  by (simp add: get_string_def split: option.splits)

lemma list_strings_cases:
  "(\<exists>d c f. list_strings store q = Listing d c f) \<or> (\<exists>code err. list_strings store q = Failure code err)"
  by (auto simp: list_strings_def and_then_def block_is_palindrome_def block_min_length_def
       block_max_length_def block_word_count_def block_contains_character_def Let_def
       split: sum.splits option.splits if_splits prod.splits)


lemma nl_cases:
  "(\<exists>d c orig f. filter_by_natural_language store q = Interpreted d c orig f) \<or>
   (\<exists>code err. filter_by_natural_language store q = Failure code err)"
  by (auto simp: filter_by_natural_language_def Let_def split: option.splits sum.splits)

lemma p0_get_string_cases:
  "(\<exists>e. p0_get_string h strDB v = Found e) \<or> p0_get_string h strDB v = Failure 404 Not_found"
  by (simp add: p0_get_string_def Let_def split: option.splits)

lemma p0_list_strings_cases: "\<exists>d c f. p0_list_strings strDB q = Listing d c f"
  by (simp add: p0_list_strings_def split: prod.splits)

lemma p0_nl_cases:
  "(\<exists>d c orig f. p0_filter_by_natural_language strDB q = Interpreted d c orig f) \<or>
   (\<exists>code err. p0_filter_by_natural_language strDB q = Failure code err)"
  by (auto simp: p0_filter_by_natural_language_def Let_def split: option.splits sum.splits)

lemma handle_effect:
  assumes "handle h now req store = (r, store')"
  shows "case r of
           Created e \<Rightarrow>
             (\<exists>v. req = POST_strings (Some (JString v)) \<and> \<not> map_has store (h v) \<and>
                  e = new_entry h now v \<and> store' = store @ [(h v, e)])
         | Deleted \<Rightarrow>
             (\<exists>v. req = DELETE_string v \<and> map_has store (h v) \<and> store' = map_delete store (h v))
         | _ \<Rightarrow> store' = store"
proof (cases req)
  case (POST_strings body)
  with assms post_strings_cases [of h now store body r store'] show ?thesis by auto
next
  case (GET_string v)
  with assms get_string_cases [of h store v] show ?thesis by auto
next
  case (GET_strings q)
  with assms list_strings_cases [of store q] show ?thesis by auto
next
  case (GET_natural_language q)
  with assms nl_cases [of store q] show ?thesis by auto
next
  case (DELETE_string v)
  with assms delete_string_cases [of h store v r store'] show ?thesis by auto
qed

lemma p0_handle_effect:
  assumes "p0_handle h now req strDB = (r0, strDB')"
  shows "case r0 of
           Created e \<Rightarrow>
             (\<exists>v. req = POST_strings (Some (JString v)) \<and> \<not> map_has strDB (h v) \<and>
                  e = p0_new_record h now v \<and> strDB' = strDB @ [(h v, e)])
         | Deleted \<Rightarrow>
             (\<exists>v. req = DELETE_string v \<and> map_has strDB (h v) \<and> strDB' = map_delete strDB (h v))
         | _ \<Rightarrow> strDB' = strDB"
proof (cases req)
  case (POST_strings body)
  with assms p0_post_strings_cases [of h now strDB body r0 strDB'] show ?thesis by auto
next
  case (GET_string v)
  with assms p0_get_string_cases [of h strDB v] show ?thesis by auto
next
  case (GET_strings q)
  with assms p0_list_strings_cases [of strDB q] show ?thesis by auto
next
  case (GET_natural_language q)
  with assms p0_nl_cases [of strDB q] show ?thesis by auto
next
  case (DELETE_string v)
  with assms p0_delete_string_cases [of h strDB v r0 strDB'] show ?thesis by auto
qed

text \<open>
  So the routes of \<^verbatim>\<open>index.js\<close> keep the store well-formed: from the empty store, no
  sequence of requests leads to a store that holds a digest twice, or a record under
  another key than the digest of its value.
\<close>

lemma handle_store_ok:
  assumes "store_ok h store"
  shows "store_ok h (snd (handle h now req store))"
proof -
  obtain r store' where hd: "handle h now req store = (r, store')"
    by (cases "handle h now req store")
  note c = handle_effect [OF hd]
  have "store_ok h store'"
  proof (cases r)
    case (Created e)
    with c obtain v where "\<not> map_has store (h v)" "e = new_entry h now v"
      "store' = store @ [(h v, e)]"
      by auto
    with assms show ?thesis
      by (auto simp: store_ok_def map_has_def new_entry_def)
  next
    case Deleted
    with c obtain v where "store' = map_delete store (h v)" by auto
    with assms show ?thesis
      by (auto simp: store_ok_def map_delete_def distinct_map_filter)
  qed (use c assms in auto)
  with hd show ?thesis by simp
qed

lemma run_store_ok: "store_ok h store \<Longrightarrow> store_ok h (run h reqs store)"
proof (induction reqs arbitrary: store)
  case Nil
  then show ?case by simp
next
  case (Cons x reqs)
  obtain now req where "x = (now, req)" by (cases x)
  with Cons handle_store_ok [of h store now req] show ?case by simp
qed

lemma empty_store_ok: "store_ok h []"
  by (simp add: store_ok_def)

text \<open>
  Claim C9. Every request is one step from a store to a store, and for every store and
  every request: a response other than 201 and 204 (so the 409 of a repeated insert, the 404
  of a lookup or of a delete, and every other failure or read) leaves the store exactly as
  it was; a 201 only answers an insert of a string whose digest was absent, and adds the one
  new record; a 204 only answers a delete of a string whose digest was present, and removes
  that key. Both servers behave so.
\<close>

theorem store_changes_only_by_insert_and_delete:
  "(handle h now req store = (r, store') \<longrightarrow>
      (case r of
         Created e \<Rightarrow>
           (\<exists>v. req = POST_strings (Some (JString v)) \<and> \<not> map_has store (h v) \<and>
                e = new_entry h now v \<and> store' = store @ [(h v, e)])
       | Deleted \<Rightarrow>
           (\<exists>v. req = DELETE_string v \<and> map_has store (h v) \<and> store' = map_delete store (h v))
       | _ \<Rightarrow> store' = store)) \<and>
   (p0_handle h now req strDB = (r0, strDB') \<longrightarrow>
      (case r0 of
         Created e \<Rightarrow>
           (\<exists>v. req = POST_strings (Some (JString v)) \<and> \<not> map_has strDB (h v) \<and>
                e = p0_new_record h now v \<and> strDB' = strDB @ [(h v, e)])
       | Deleted \<Rightarrow>
           (\<exists>v. req = DELETE_string v \<and> map_has strDB (h v) \<and> strDB' = map_delete strDB (h v))
       | _ \<Rightarrow> strDB' = strDB))"
  using handle_effect [of h now req store r store'] p0_handle_effect [of h now req strDB r0 strDB']
  by blast

theorem store_changes_only_by_insert_and_delete_witness:
  "handle (\<lambda>v. v) ''t1'' (POST_strings (Some (JString ''abc'')))
      [(''abc'', new_entry (\<lambda>v. v) ''t0'' ''abc'')]
     = (Failure 409 Already_exists, [(''abc'', new_entry (\<lambda>v. v) ''t0'' ''abc'')]) \<and>
   p0_handle (\<lambda>v. v) ''t1'' (DELETE_string ''abc'') []
     = (Failure 404 Not_found, [])"
  using store_changes_only_by_insert_and_delete
    [of "\<lambda>v. v" "''t1''" "POST_strings (Some (JString ''abc''))"
        "[(''abc'', new_entry (\<lambda>v. v) ''t0'' ''abc'')]" "Failure 409 Already_exists"
        "[(''abc'', new_entry (\<lambda>v. v) ''t0'' ''abc'')]" "[]" "Failure 404 Not_found" "[]"]
  by (simp add: post_strings_def p0_delete_string_def map_has_def Let_def)

section \<open>The analyzer\<close>

subsection \<open>Palindromes\<close>

lemma replaceRuns_filter: "replaceRuns P [] s = filter (\<lambda>c. \<not> P c) s"
proof (induction P "[] :: string" s rule: replaceRuns.induct)
  case (1 P)
  then show ?case by simp
next
  case (2 P c cs)
  have "filter (\<lambda>c. \<not> P c) (dropWhile P cs) = filter (\<lambda>c. \<not> P c) cs"
    by (induction cs) auto
  with 2 show ?case by simp
qed

lemma join_reverse_split: "concat (rev (map (\<lambda>c. [c]) n)) = rev n"
  by (induction n) auto

lemma isPalindrome_iff:
  "isPalindrome s \<longleftrightarrow>
     filter (\<lambda>c. \<not> isWhiteSpace c) (map toLowerChar s)
       = rev (filter (\<lambda>c. \<not> isWhiteSpace c) (map toLowerChar s))"
  by (simp add: isPalindrome_def Let_def replaceRuns_filter join_reverse_split toLowerCase_def)

text \<open>
  Claim C3, amended. For every string \<open>s\<close>, \<^verbatim>\<open>is_palindrome\<close> of \<^verbatim>\<open>index.js\<close> is computed by
  lower-casing \<open>s\<close>, removing the white space and nothing else, and comparing the result
  with its reversal. So \<^verbatim>\<open>A man A\<close> is normalized to \<^verbatim>\<open>amana\<close>, whose reversal is
  \<^verbatim>\<open>anama\<close>, and is not a palindrome; \<^verbatim>\<open>hello\<close> is not one either. White space and
  case do not count (\<^verbatim>\<open>Never odd or even\<close> is a palindrome), punctuation does
  (\<^verbatim>\<open>race car\<close> is a palindrome, \<^verbatim>\<open>race, car\<close> is not).
\<close>

theorem palindrome_normalization:
  "p_is_palindrome (analyzeString h s) = isPalindrome s \<and>
   (isPalindrome s \<longleftrightarrow>
      filter (\<lambda>c. \<not> isWhiteSpace c) (map toLowerChar s)
        = rev (filter (\<lambda>c. \<not> isWhiteSpace c) (map toLowerChar s))) \<and>
   filter (\<lambda>c. \<not> isWhiteSpace c) (map toLowerChar ''A man A'') = ''amana'' \<and>
   rev ''amana'' = ''anama'' \<and>
   \<not> isPalindrome ''A man A'' \<and>
   \<not> isPalindrome ''hello'' \<and>
   isPalindrome ''Never odd or even'' \<and>
   isPalindrome ''race car'' \<and>
   \<not> isPalindrome ''race, car''"
proof -
  have "p_is_palindrome (analyzeString h s) = isPalindrome s"
    by (simp add: analyzeString_def)
  moreover have "filter (\<lambda>c. \<not> isWhiteSpace c) (map toLowerChar ''A man A'') = ''amana''"
    by (simp add: toLowerChar_def isUpper_def isAsciiUpper_def isWhiteSpace_def)
  moreover have "\<not> isPalindrome ''A man A''" "\<not> isPalindrome ''hello''"
    "isPalindrome ''Never odd or even''" "isPalindrome ''race car''" "\<not> isPalindrome ''race, car''"
    by (simp_all add: isPalindrome_iff toLowerChar_def isUpper_def isAsciiUpper_def
          isWhiteSpace_def)
  ultimately show ?thesis
    using isPalindrome_iff [of s] by simp
qed

text \<open>The claim as it stands fails: \<^verbatim>\<open>A man A\<close> is not a palindrome for \<^verbatim>\<open>index.js\<close>.\<close>

theorem a_man_a_counterexample: "isPalindrome ''A man A'' = False"
  by (simp add: isPalindrome_iff toLowerChar_def isUpper_def isAsciiUpper_def isWhiteSpace_def)

text \<open>
  The second server file answers true for every string: its \<^verbatim>\<open>split()\<close> has no
  separator, so the string is compared with itself.
\<close>

lemma p0_is_palindrome_always: "p0_is_palindrome (p0_analyzeString h s)"
  by (simp add: p0_analyzeString_def Let_def)

subsection \<open>Words\<close>

lemma cws_dropWhile: "count_word_starts False (dropWhile isWhiteSpace s) = count_word_starts False s"
  by (induction s) auto

lemma cws_append_ws: "\<forall>c \<in> set w. isWhiteSpace c \<Longrightarrow> count_word_starts b (s @ w) = count_word_starts b s"
proof (induction s arbitrary: b)
  case Nil
  then show ?case by (induction w arbitrary: b) auto
next
  case (Cons c s)
  then show ?case by simp
qed

lemma trim_decomp: "\<exists>w. (\<forall>c \<in> set w. isWhiteSpace c) \<and> dropWhile isWhiteSpace s = trim s @ w"
proof -
  let ?t = "dropWhile isWhiteSpace s"
  have "rev ?t = takeWhile isWhiteSpace (rev ?t) @ dropWhile isWhiteSpace (rev ?t)" by simp
  then have "?t = rev (dropWhile isWhiteSpace (rev ?t)) @ rev (takeWhile isWhiteSpace (rev ?t))"
    by (metis rev_append rev_rev_ident)
  moreover have "\<forall>c \<in> set (rev (takeWhile isWhiteSpace (rev ?t))). isWhiteSpace c"
    by (auto dest: set_takeWhileD)
  ultimately show ?thesis unfolding trim_def by blast
qed

lemma cws_trim: "count_word_starts False (trim s) = count_word_starts False s"
proof -
  obtain w where w: "\<forall>c \<in> set w. isWhiteSpace c" "dropWhile isWhiteSpace s = trim s @ w"
    using trim_decomp by blast
  have "count_word_starts False (trim s) = count_word_starts False (trim s @ w)"
    using w(1) by (simp add: cws_append_ws)
  also have "\<dots> = count_word_starts False s" using w(2) cws_dropWhile [of s] by simp
  finally show ?thesis .
qed

lemma splitRunsAcc_count:
  "length (filter (\<lambda>t. t \<noteq> []) (splitRunsAcc isWhiteSpace acc s))
     = (if acc = [] then count_word_starts False s else 1 + count_word_starts True s)"
proof (induction isWhiteSpace acc s rule: splitRunsAcc.induct)
  case (1 acc)
  then show ?case by simp
next
  case (2 acc c cs)
  show ?case
  proof (cases "isWhiteSpace c")
    case True
    with 2 show ?thesis by (simp add: cws_dropWhile)
  next
    case False
    with 2 show ?thesis by (cases "acc = []") auto
  qed
qed

lemma countWords_eq: "countWords s = count_word_starts False s"
  by (simp add: countWords_def splitRuns_def splitRunsAcc_count cws_trim)

text \<open>
  Claim C8. For every string \<open>s\<close>, \<^verbatim>\<open>word_count\<close> of \<^verbatim>\<open>index.js\<close> is the number of
  non-empty pieces of the trimmed string between runs of white space, which is the number
  of words of \<open>s\<close>; the empty string has none. The second server file splits at the two
  characters \<^verbatim>\<open>+s\<close> instead of at white space: it counts one word in \<^verbatim>\<open>hello world\<close>,
  where \<^verbatim>\<open>index.js\<close> counts two.
\<close>

theorem word_count_second_server_diverges:
  "p_word_count (analyzeString h s)
     = length (filter (\<lambda>t. t \<noteq> []) (splitRuns isWhiteSpace (trim s))) \<and>
   p_word_count (analyzeString h s) = count_word_starts False s \<and>
   p_word_count (analyzeString h []) = 0 \<and>
   p_word_count (analyzeString h ''hello world'') = 2 \<and>
   p0_word_count (p0_analyzeString h ''hello world'') = 1"
proof -
  have "p_word_count (analyzeString h s)
          = length (filter (\<lambda>t. t \<noteq> []) (splitRuns isWhiteSpace (trim s)))"
    by (cases "s = []") (simp_all add: analyzeString_def countWords_def trim_def splitRuns_def)
  moreover have "p_word_count (analyzeString h s) = count_word_starts False s" for s
    by (simp add: analyzeString_def countWords_eq)
  moreover have "count_word_starts False ''hello world'' = 2"
    by (simp add: isWhiteSpace_def)
  moreover have "p0_word_count (p0_analyzeString h ''hello world'') = 1"
    by (simp add: p0_analyzeString_def Let_def trim_def isWhiteSpace_def splitLit_def)
  ultimately show ?thesis by simp
qed

section \<open>The structured listing\<close>

text \<open>
  The five blocks of \<^verbatim>\<open>GET /strings\<close> together: a well-formed query is answered with the
  records that match its typed filter record, which is echoed; any other query is answered
  with 400. The second server file answers every query.
\<close>

lemma list_strings_well_formed:
  assumes "well_formed q"
  shows "list_strings store q =
           Listing (filter (matches (typed_spec q)) (map_values store))
             (length (filter (matches (typed_spec q)) (map_values store))) (typed_spec q)"
  using assms
  unfolding list_strings_def and_then_def block_is_palindrome_def block_min_length_def
    block_max_length_def block_word_count_def block_contains_character_def well_formed_def
    typed_spec_def matches_def no_filters_def Let_def
  by (cases "q_is_palindrome q"; cases "q_min_length q"; cases "q_max_length q";
      cases "q_word_count q"; cases "q_contains_character q")
     (simp_all add: conj_ac cong: conj_cong)


lemma list_strings_malformed:
  assumes "\<not> well_formed q"
  shows "\<exists>name. list_strings store q = Failure 400 (Invalid_filter name)"
  using assms
  unfolding list_strings_def and_then_def block_is_palindrome_def block_min_length_def
    block_max_length_def block_word_count_def block_contains_character_def well_formed_def
    Let_def
  by (cases "q_is_palindrome q"; cases "q_min_length q"; cases "q_max_length q";
      cases "q_word_count q"; cases "q_contains_character q")
     (auto split: if_splits)

lemma p0_list_strings_eq:
  "p0_list_strings strDB q =
     Listing (filter (p0_matches (p0_typed_spec q)) (map_values strDB))
       (length (filter (p0_matches (p0_typed_spec q)) (map_values strDB))) (p0_typed_spec q)"
  unfolding p0_list_strings_def p0_block_is_palindrome_def p0_block_min_length_def
    p0_block_max_length_def p0_block_word_count_def p0_block_contains_character_def
    p0_typed_spec_def p0_matches_def no_filters_def Let_def
  by (cases "q_is_palindrome q"; cases "q_min_length q"; cases "q_max_length q";
      cases "q_word_count q"; cases "q_contains_character q")
     (simp_all add: conj_ac cong: conj_cong)

lemma apply_in_order_filter: "apply_in_order ps rs = filter (\<lambda>r. \<forall>p \<in> set ps. p r) rs"
  by (induction ps arbitrary: rs) (auto intro: filter_cong)

lemma apply_in_order_perm:
  "set ps' = set ps \<Longrightarrow> apply_in_order ps' rs = apply_in_order ps rs"
  by (simp add: apply_in_order_filter)

lemma matches_predicates: "matches f r \<longleftrightarrow> (\<forall>p \<in> set (predicates f). p r)"
  by (auto simp: matches_def predicates_def split: option.splits)

lemma p0_matches_predicates: "p0_matches f r \<longleftrightarrow> (\<forall>p \<in> set (p0_predicates f). p r)"
  by (auto simp: p0_matches_def p0_predicates_def split: option.splits)

lemma str_includes_sublist: "str_includes s t \<longleftrightarrow> sublist t s"
  by (induction s) (auto simp: sublist_Cons_right)


lemma parsed_single_word_palindromic:
  "parsed_filters ''all single word palindromic strings''
     = no_filters\<lparr>f_word_count := Some (Num 1), f_is_palindrome := Some True\<rparr>"
  by code_simp

lemma p0_parsed_single_word_palindromic:
  "p0_parsed_filters ''all single word palindromic strings''
     = no_filters\<lparr>f_word_count := Some (Num 1), f_is_palindrome := Some True\<rparr>"
  by code_simp

lemma apply_parsed_matches:
  "f_max_length f = None \<Longrightarrow> apply_parsed f rs = filter (matches f) rs"
  unfolding apply_parsed_def matches_def Let_def
  by (cases "f_is_palindrome f"; cases "f_min_length f"; cases "f_word_count f";
      cases "f_contains_character f") (simp_all add: conj_ac cong: conj_cong)

lemma parsed_filters_no_max: "f_max_length (parsed_filters original) = None"
  by (simp add: parsed_filters_def parse_containing_def parse_first_vowel_def parse_at_least_def
        parse_longer_than_def parse_palindrome_def parse_single_word_def no_filters_def Let_def
        split: option.splits)

lemma p0_apply_parsed_matches:
  "f_max_length f = None \<Longrightarrow> f_is_palindrome f \<noteq> Some False \<Longrightarrow>
   p0_apply_parsed f rs = filter (p0_matches f) rs"
  unfolding p0_apply_parsed_def p0_matches_def Let_def
  by (cases "f_is_palindrome f"; cases "f_min_length f"; cases "f_word_count f";
      cases "f_contains_character f") (simp_all add: conj_ac cong: conj_cong)


subsection \<open>The natural-language route against the structured one\<close>

text \<open>
  Claim C1. The text \<^verbatim>\<open>all single word palindromic strings\<close> is interpreted as the filter
  record with \<^verbatim>\<open>word_count\<close> 1 and \<^verbatim>\<open>is_palindrome\<close> true and no other field; and for every
  store the natural-language route returns for that text the same records, in the same
  order, as \<^verbatim>\<open>GET /strings?word_count=1&is_palindrome=true\<close>: those with one word that are
  palindromes. Both servers behave so.
\<close>

theorem natural_language_equivalence:
  "interpret_query ''all single word palindromic strings''
     = Inr (no_filters\<lparr>f_word_count := Some (Num 1), f_is_palindrome := Some True\<rparr>) \<and>
   data (filter_by_natural_language store (Some ''all single word palindromic strings''))
     = data (list_strings store
               (no_query\<lparr>q_word_count := Some ''1'', q_is_palindrome := Some ''true''\<rparr>)) \<and>
   data (list_strings store (no_query\<lparr>q_word_count := Some ''1'', q_is_palindrome := Some ''true''\<rparr>))
     = filter (\<lambda>r. p_word_count (e_properties r) = 1 \<and> p_is_palindrome (e_properties r))
         (map_values store) \<and>
   p0_interpret_query ''all single word palindromic strings''
     = Inr (no_filters\<lparr>f_word_count := Some (Num 1), f_is_palindrome := Some True\<rparr>) \<and>
   data (p0_filter_by_natural_language strDB (Some ''all single word palindromic strings''))
     = data (p0_list_strings strDB
               (no_query\<lparr>q_word_count := Some ''1'', q_is_palindrome := Some ''true''\<rparr>)) \<and>
   data (p0_list_strings strDB (no_query\<lparr>q_word_count := Some ''1'', q_is_palindrome := Some ''true''\<rparr>))
     = filter (\<lambda>r. p0_word_count (r_properties r) = 1 \<and> p0_is_palindrome (r_properties r))
         (map_values strDB)"
proof -
  let ?text = "''all single word palindromic strings''"
  let ?spec = "no_filters\<lparr>f_word_count := Some (Num 1), f_is_palindrome := Some True\<rparr>"
  let ?q = "no_query\<lparr>q_word_count := Some ''1'', q_is_palindrome := Some ''true''\<rparr>"
  have keys: "keys_count ?spec = 2"
    by (simp add: keys_count_def no_filters_def)
  have i: "interpret_query ?text = Inr ?spec"
    by (simp add: interpret_query_def parsed_single_word_palindromic keys Let_def)
  have i0: "p0_interpret_query ?text = Inr ?spec"
    by (simp add: p0_interpret_query_def p0_parsed_single_word_palindromic keys Let_def)
  have wf: "well_formed ?q" by code_simp
  have ts: "typed_spec ?q = ?spec" by code_simp
  have ts0: "p0_typed_spec ?q = ?spec" by code_simp
  have m: "matches ?spec = (\<lambda>r. p_word_count (e_properties r) = 1 \<and> p_is_palindrome (e_properties r))"
    by (auto simp: matches_def no_filters_def fun_eq_iff)
  have m0: "p0_matches ?spec = (\<lambda>r. p0_word_count (r_properties r) = 1 \<and> p0_is_palindrome (r_properties r))"
    by (auto simp: p0_matches_def no_filters_def fun_eq_iff)
  have nl: "data (filter_by_natural_language store (Some ?text)) = filter (matches ?spec) (map_values store)"
    by (simp add: filter_by_natural_language_def i Let_def apply_parsed_matches no_filters_def)
  have nl0: "data (p0_filter_by_natural_language strDB (Some ?text)) = filter (p0_matches ?spec) (map_values strDB)"
    by (simp add: p0_filter_by_natural_language_def i0 Let_def p0_apply_parsed_matches no_filters_def)
  have ls: "data (list_strings store ?q) = filter (matches ?spec) (map_values store)"
    using list_strings_well_formed [OF wf, of store] by (simp add: ts)
  have ls0: "data (p0_list_strings strDB ?q) = filter (p0_matches ?spec) (map_values strDB)"
    by (simp add: p0_list_strings_eq ts0)
  show ?thesis
    using i i0 nl nl0 ls ls0 by (simp only: m m0)
qed



subsection \<open>Filters are combined by conjunction\<close>

lemma three_inserts:
  assumes "distinct [h a, h b, h c]"
  shows "run h [(t1, POST_strings (Some (JString a))), (t2, POST_strings (Some (JString b))),
                (t3, POST_strings (Some (JString c)))] []
           = [(h a, new_entry h t1 a), (h b, new_entry h t2 b), (h c, new_entry h t3 c)]"
proof -
  have 1: "post_strings h t1 [] (Some (JString a)) = (Created (new_entry h t1 a), [(h a, new_entry h t1 a)])"
    using post_strings_fresh [of "[]" h a t1] by (simp add: map_has_def)
  have 2: "post_strings h t2 [(h a, new_entry h t1 a)] (Some (JString b))
             = (Created (new_entry h t2 b), [(h a, new_entry h t1 a), (h b, new_entry h t2 b)])"
    using assms post_strings_fresh [of "[(h a, new_entry h t1 a)]" h b t2]
    by (auto simp: map_has_def)
  have 3: "post_strings h t3 [(h a, new_entry h t1 a), (h b, new_entry h t2 b)] (Some (JString c))
             = (Created (new_entry h t3 c),
                [(h a, new_entry h t1 a), (h b, new_entry h t2 b), (h c, new_entry h t3 c)])"
    using assms
      post_strings_fresh [of "[(h a, new_entry h t1 a), (h b, new_entry h t2 b)]" h c t3]
    by (auto simp: map_has_def)
  show ?thesis by (simp add: 1 2 3)
qed

lemma p0_three_inserts:
  assumes "distinct [h a, h b, h c]"
  shows "p0_run h [(t1, POST_strings (Some (JString a))), (t2, POST_strings (Some (JString b))),
                (t3, POST_strings (Some (JString c)))] []
           = [(h a, p0_new_record h t1 a), (h b, p0_new_record h t2 b), (h c, p0_new_record h t3 c)]"
proof -
  have 1: "p0_post_strings h t1 [] (Some (JString a))
             = (Created (p0_new_record h t1 a), [(h a, p0_new_record h t1 a)])"
    using p0_post_strings_fresh [of "[]" h a t1] by (simp add: map_has_def)
  have 2: "p0_post_strings h t2 [(h a, p0_new_record h t1 a)] (Some (JString b))
             = (Created (p0_new_record h t2 b),
                [(h a, p0_new_record h t1 a), (h b, p0_new_record h t2 b)])"
    using assms p0_post_strings_fresh [of "[(h a, p0_new_record h t1 a)]" h b t2]
    by (auto simp: map_has_def)
  have 3: "p0_post_strings h t3 [(h a, p0_new_record h t1 a), (h b, p0_new_record h t2 b)]
               (Some (JString c))
             = (Created (p0_new_record h t3 c),
                [(h a, p0_new_record h t1 a), (h b, p0_new_record h t2 b),
                 (h c, p0_new_record h t3 c)])"
    using assms
      p0_post_strings_fresh [of "[(h a, p0_new_record h t1 a), (h b, p0_new_record h t2 b)]" h c t3]
    by (auto simp: map_has_def)
  show ?thesis by (simp add: 1 2 3)
qed

lemma scenario_query:
  "well_formed min2_contains_a"
  "typed_spec min2_contains_a
     = no_filters\<lparr>f_min_length := Some (Num 2), f_contains_character := Some ''a''\<rparr>"
  "p0_typed_spec min2_contains_a
     = no_filters\<lparr>f_min_length := Some (Num 2), f_contains_character := Some ''a''\<rparr>"
  by code_simp+

lemma scenario_matches:
  "matches (no_filters\<lparr>f_min_length := Some (Num 2), f_contains_character := Some ''a''\<rparr>)
     (new_entry h t v) \<longleftrightarrow> 2 \<le> length v \<and> str_includes v ''a''"
  "p0_matches (no_filters\<lparr>f_min_length := Some (Num 2), f_contains_character := Some ''a''\<rparr>)
     (p0_new_record h t v) \<longleftrightarrow> 2 \<le> length v \<and> str_includes v ''a''"
  by (simp_all add: matches_def p0_matches_def no_filters_def new_entry_def p0_new_record_def
        analyzeString_def p0_analyzeString_def Let_def)

lemma scenario_listing:
  assumes "distinct [h ''aa'', h ''aaa'', h ''ab'']"
  shows "list_strings (run h (insert_aa_aaa_ab t1 t2 t3) []) min2_contains_a
         = Listing [new_entry h t1 ''aa'', new_entry h t2 ''aaa'', new_entry h t3 ''ab''] 3
             (no_filters\<lparr>f_min_length := Some (Num 2), f_contains_character := Some ''a''\<rparr>)"
  using three_inserts [of h "''aa''" "''aaa''" "''ab''" t1 t2 t3] assms
  by (simp add: insert_aa_aaa_ab_def list_strings_well_formed scenario_query scenario_matches
        map_values_def)

lemma p0_scenario_listing:
  assumes "distinct [h ''aa'', h ''aaa'', h ''ab'']"
  shows "p0_list_strings (p0_run h (insert_aa_aaa_ab t1 t2 t3) []) min2_contains_a
         = Listing [p0_new_record h t1 ''aa'', p0_new_record h t2 ''aaa'',
                    p0_new_record h t3 ''ab''] 3
             (no_filters\<lparr>f_min_length := Some (Num 2), f_contains_character := Some ''a''\<rparr>)"
  using p0_three_inserts [of h "''aa''" "''aaa''" "''ab''" t1 t2 t3] assms
  by (simp add: insert_aa_aaa_ab_def p0_list_strings_eq scenario_query scenario_matches
        map_values_def)

lemma apply_in_order_matches:
  assumes "mset ps = mset (predicates f)"
  shows "apply_in_order ps rs = filter (matches f) rs"
proof -
  from assms have "set ps = set (predicates f)" by (rule mset_eq_setD)
  then have "(\<forall>p \<in> set ps. p r) \<longleftrightarrow> matches f r" for r
    by (simp add: matches_predicates)
  then show ?thesis by (simp add: apply_in_order_filter)
qed

lemma p0_apply_in_order_matches:
  assumes "mset ps = mset (p0_predicates f)"
  shows "apply_in_order ps rs = filter (p0_matches f) rs"
proof -
  from assms have "set ps = set (p0_predicates f)" by (rule mset_eq_setD)
  then have "(\<forall>p \<in> set ps. p r) \<longleftrightarrow> p0_matches f r" for r
    by (simp add: p0_matches_predicates)
  then show ?thesis by (simp add: apply_in_order_filter)
qed

lemma natural_number_parse:
  assumes "natural_number x"
  shows "parseInt (show_number x) (Some 10) = x" and "parseInt (show_number x) None = x"
proof -
  from assms obtain n where x: "x = Num n" and n: "0 \<le> n" "n < 2 ^ 53"
    by (cases x) (auto simp: natural_number_def)
  then have "parseInt (decimal (nat n)) r = Num n" if "r = Some 10 \<or> r = None" for r
    using that parseInt_decimal [of "nat n"] to_number_exact [of n] by auto
  then show "parseInt (show_number x) (Some 10) = x" and "parseInt (show_number x) None = x"
    by (simp_all add: x show_number_def)
qed

lemma bool_text:
  "toLowerCase (if b then ''true'' else ''false'') = (if b then ''true'' else ''false'')"
  by (simp add: toLowerCase_def toLowerChar_def isUpper_def isAsciiUpper_def)

lemma typed_ok_query:
  assumes "typed_ok f"
  shows "well_formed (query_of f)" and "typed_spec (query_of f) = f"
    and "p0_typed_spec (query_of f) = f"
proof -
  have n: "\<not> isNaN x" if "natural_number x" for x
    using that by (cases x) (simp_all add: natural_number_def)
  show "well_formed (query_of f)"
    using assms
    by (auto simp: well_formed_def query_of_def typed_ok_def bool_text natural_number_parse n
          split: option.splits)
  have "f_is_palindrome (typed_spec (query_of f)) = f_is_palindrome f"
    by (cases "f_is_palindrome f") (simp_all add: typed_spec_def query_of_def bool_text)
  moreover have "f_min_length (typed_spec (query_of f)) = f_min_length f"
    "f_max_length (typed_spec (query_of f)) = f_max_length f"
    "f_word_count (typed_spec (query_of f)) = f_word_count f"
    using assms
    by (auto simp: typed_spec_def query_of_def typed_ok_def natural_number_parse
          split: option.splits)
  moreover have "f_contains_character (typed_spec (query_of f)) = f_contains_character f"
    by (simp add: typed_spec_def query_of_def)
  ultimately show "typed_spec (query_of f) = f"
    by (intro filters.equality) simp_all
  have "f_is_palindrome (p0_typed_spec (query_of f)) = f_is_palindrome f"
    by (cases "f_is_palindrome f") (simp_all add: p0_typed_spec_def query_of_def)
  moreover have "f_min_length (p0_typed_spec (query_of f)) = f_min_length f"
    "f_max_length (p0_typed_spec (query_of f)) = f_max_length f"
    "f_word_count (p0_typed_spec (query_of f)) = f_word_count f"
    using assms
    by (auto simp: p0_typed_spec_def query_of_def typed_ok_def natural_number_parse
          split: option.splits)
  moreover have "f_contains_character (p0_typed_spec (query_of f)) = f_contains_character f"
    by (simp add: p0_typed_spec_def query_of_def)
  ultimately show "p0_typed_spec (query_of f) = f"
    by (intro filters.equality) simp_all
qed

text \<open>
  Claim C4, amended. For every store and every typed filter record, carried by its query
  parameters (and more generally for every well-formed query), \<^verbatim>\<open>GET /strings\<close> returns
  exactly the records that satisfy the predicates of all the fields present (an absent
  field constrains nothing: the empty filter record matches every record), with their count
  and with the typed filter record as \<^verbatim>\<open>filters_applied\<close>; applying the predicates one
  after the other in any order gives the same list. When \<^verbatim>\<open>aa\<close>, \<^verbatim>\<open>aaa\<close> and \<^verbatim>\<open>ab\<close> have
  been inserted (their digests being distinct), the query \<^verbatim>\<open>min_length=2\<close>,
  \<^verbatim>\<open>contains_character=a\<close> returns the three records of \<^verbatim>\<open>aa\<close>, \<^verbatim>\<open>aaa\<close> and \<^verbatim>\<open>ab\<close>: each
  has at least two characters and contains \<^verbatim>\<open>a\<close>. The echo is \<^verbatim>\<open>min_length\<close> 2 and
  \<^verbatim>\<open>contains_character\<close> \<^verbatim>\<open>a\<close>. The second server file does the same, for every query.
\<close>

theorem filter_and_composition:
  "(typed_ok f \<longrightarrow>
      list_strings store (query_of f)
        = Listing (filter (matches f) (map_values store))
            (length (filter (matches f) (map_values store))) f \<and>
      p0_list_strings strDB (query_of f)
        = Listing (filter (p0_matches f) (map_values strDB))
            (length (filter (p0_matches f) (map_values strDB))) f) \<and>
   (well_formed q \<longrightarrow>
      list_strings store q
        = Listing (filter (matches (typed_spec q)) (map_values store))
            (length (filter (matches (typed_spec q)) (map_values store))) (typed_spec q) \<and>
      (\<forall>ps. mset ps = mset (predicates (typed_spec q)) \<longrightarrow>
            apply_in_order ps (map_values store)
              = filter (matches (typed_spec q)) (map_values store))) \<and>
   p0_list_strings strDB q
     = Listing (filter (p0_matches (p0_typed_spec q)) (map_values strDB))
         (length (filter (p0_matches (p0_typed_spec q)) (map_values strDB))) (p0_typed_spec q) \<and>
   (\<forall>ps. mset ps = mset (p0_predicates (p0_typed_spec q)) \<longrightarrow>
         apply_in_order ps (map_values strDB)
           = filter (p0_matches (p0_typed_spec q)) (map_values strDB)) \<and>
   matches no_filters r \<and> p0_matches no_filters r0 \<and>
   (distinct [h ''aa'', h ''aaa'', h ''ab''] \<longrightarrow>
      list_strings (run h (insert_aa_aaa_ab t1 t2 t3) []) min2_contains_a
        = Listing [new_entry h t1 ''aa'', new_entry h t2 ''aaa'', new_entry h t3 ''ab''] 3
            (no_filters\<lparr>f_min_length := Some (Num 2), f_contains_character := Some ''a''\<rparr>) \<and>
      p0_list_strings (p0_run h (insert_aa_aaa_ab t1 t2 t3) []) min2_contains_a
        = Listing [p0_new_record h t1 ''aa'', p0_new_record h t2 ''aaa'',
                   p0_new_record h t3 ''ab''] 3
            (no_filters\<lparr>f_min_length := Some (Num 2), f_contains_character := Some ''a''\<rparr>))"
proof (intro conjI impI allI)
  show "matches no_filters r" "p0_matches no_filters r0"
    by (simp_all add: matches_def p0_matches_def no_filters_def)
  show "list_strings store (query_of f)
        = Listing (filter (matches f) (map_values store))
            (length (filter (matches f) (map_values store))) f" if "typed_ok f"
    using list_strings_well_formed [of "query_of f" store] typed_ok_query [OF that] by simp
  show "p0_list_strings strDB (query_of f)
        = Listing (filter (p0_matches f) (map_values strDB))
            (length (filter (p0_matches f) (map_values strDB))) f" if "typed_ok f"
    using p0_list_strings_eq [of strDB "query_of f"] typed_ok_query [OF that] by simp
qed (erule list_strings_well_formed apply_in_order_matches p0_apply_in_order_matches
       scenario_listing p0_scenario_listing | rule p0_list_strings_eq)+

theorem filter_and_composition_witness:
  "typed_ok (no_filters\<lparr>f_min_length := Some (Num 2), f_contains_character := Some ''a''\<rparr>) \<and>
   well_formed min2_contains_a \<and>
   distinct [toy_digest ''aa'', toy_digest ''aaa'', toy_digest ''ab''] \<and>
   map e_value
     (data (list_strings (run toy_digest (insert_aa_aaa_ab ''t1'' ''t2'' ''t3'') [])
        (query_of (no_filters\<lparr>f_min_length := Some (Num 2), f_contains_character := Some ''a''\<rparr>))))
     = [''aa'', ''aaa'', ''ab''] \<and>
   map e_value
     (data (list_strings (run toy_digest (insert_aa_aaa_ab ''t1'' ''t2'' ''t3'') []) min2_contains_a))
     = [''aa'', ''aaa'', ''ab''] \<and>
   mset (rev (predicates (typed_spec min2_contains_a)))
     = mset (predicates (typed_spec min2_contains_a)) \<and>
   apply_in_order (rev (predicates (typed_spec min2_contains_a)))
       (map_values (run toy_digest (insert_aa_aaa_ab ''t1'' ''t2'' ''t3'') []))
     = data (list_strings (run toy_digest (insert_aa_aaa_ab ''t1'' ''t2'' ''t3'') []) min2_contains_a)"
proof -
  let ?store = "run toy_digest (insert_aa_aaa_ab ''t1'' ''t2'' ''t3'') []"
  let ?f = "no_filters\<lparr>f_min_length := Some (Num 2), f_contains_character := Some ''a''\<rparr>"
  have ok: "typed_ok ?f"
    by (simp add: typed_ok_def natural_number_def no_filters_def)
  have q: "query_of ?f = min2_contains_a"
    by (simp add: query_of_def min2_contains_a_def no_query_def no_filters_def show_number_def
          decimal.simps digit_of_def)
  have wf: "well_formed min2_contains_a" by (rule scenario_query)
  have d: "distinct [toy_digest ''aa'', toy_digest ''aaa'', toy_digest ''ab'']"
    by (simp add: toy_digest_def)
  have m: "mset (rev (predicates (typed_spec min2_contains_a)))
             = mset (predicates (typed_spec min2_contains_a))" by simp
  note inst = filter_and_composition
         [of ?f ?store "[]" min2_contains_a undefined undefined toy_digest "''t1''" "''t2''" "''t3''"]
  from inst ok have 0: "list_strings ?store (query_of ?f)
        = Listing (filter (matches ?f) (map_values ?store))
            (length (filter (matches ?f) (map_values ?store))) ?f"
    by blast
  from inst wf have 1: "list_strings ?store min2_contains_a
        = Listing (filter (matches (typed_spec min2_contains_a)) (map_values ?store))
            (length (filter (matches (typed_spec min2_contains_a)) (map_values ?store)))
            (typed_spec min2_contains_a)"
    by blast
  from inst wf m have 2: "apply_in_order (rev (predicates (typed_spec min2_contains_a))) (map_values ?store)
              = filter (matches (typed_spec min2_contains_a)) (map_values ?store)"
    by blast
  from inst d have 3: "list_strings ?store min2_contains_a
        = Listing [new_entry toy_digest ''t1'' ''aa'', new_entry toy_digest ''t2'' ''aaa'',
                   new_entry toy_digest ''t3'' ''ab''] 3
            (no_filters\<lparr>f_min_length := Some (Num 2), f_contains_character := Some ''a''\<rparr>)"
    by blast
  have 4: "map e_value (data (list_strings ?store min2_contains_a)) = [''aa'', ''aaa'', ''ab'']"
    by (simp only: 3) (simp add: new_entry_def)
  have 5: "apply_in_order (rev (predicates (typed_spec min2_contains_a))) (map_values ?store)
             = data (list_strings ?store min2_contains_a)"
    by (simp only: 2) (simp only: 1 data.simps)
  have 6: "map e_value (data (list_strings ?store (query_of ?f))) = [''aa'', ''aaa'', ''ab'']"
    using 4 by (simp only: q)
  from ok wf d m 4 5 6 show ?thesis by blast
qed

text \<open>
  The claim as it stands fails: the record of \<^verbatim>\<open>ab\<close> is returned too, so the result is not
  exactly the records of \<^verbatim>\<open>aa\<close> and \<^verbatim>\<open>aaa\<close>.
\<close>

theorem filter_scenario_counterexample:
  "map e_value
     (data (list_strings (run toy_digest (insert_aa_aaa_ab ''t1'' ''t2'' ''t3'') []) min2_contains_a))
     = [''aa'', ''aaa'', ''ab''] \<and>
   ''ab'' \<in> set (map e_value
     (data (list_strings (run toy_digest (insert_aa_aaa_ab ''t1'' ''t2'' ''t3'') []) min2_contains_a)))"
proof -
  have "distinct [toy_digest ''aa'', toy_digest ''aaa'', toy_digest ''ab'']"
    by (simp add: toy_digest_def)
  then have "list_strings (run toy_digest (insert_aa_aaa_ab ''t1'' ''t2'' ''t3'') []) min2_contains_a
        = Listing [new_entry toy_digest ''t1'' ''aa'', new_entry toy_digest ''t2'' ''aaa'',
                   new_entry toy_digest ''t3'' ''ab''] 3
            (no_filters\<lparr>f_min_length := Some (Num 2), f_contains_character := Some ''a''\<rparr>)"
    by (rule scenario_listing)
  then show ?thesis
    by (simp add: new_entry_def)
qed



subsection \<open>The two routes in general\<close>

text \<open>
  Whatever text is interpreted, the natural-language route of \<^verbatim>\<open>index.js\<close> returns the
  records that match the interpreted filter record, as \<^verbatim>\<open>GET /strings\<close> does when it is
  given that record.
\<close>

lemma interpret_empty: "interpret_query [] = Inl Unable_to_parse"
proof -
  have "parsed_filters [] = no_filters" by code_simp
  then show ?thesis by (simp add: interpret_query_def keys_count_def no_filters_def)
qed

lemma natural_language_equals_structured:
  assumes "interpret_query t = Inr f" and "typed_ok f"
  shows "filter_by_natural_language store (Some t)
           = Interpreted (filter (matches f) (map_values store))
               (length (filter (matches f) (map_values store))) t f"
    and "list_strings store (query_of f)
           = Listing (filter (matches f) (map_values store))
               (length (filter (matches f) (map_values store))) f"
proof -
  from assms(1) have t: "t \<noteq> []" using interpret_empty by auto
  from assms(1) have f: "f = parsed_filters t"
    by (simp add: interpret_query_def Let_def split: if_splits)
  then have "f_max_length f = None" by (simp add: parsed_filters_no_max)
  then show "filter_by_natural_language store (Some t)
           = Interpreted (filter (matches f) (map_values store))
               (length (filter (matches f) (map_values store))) t f"
    using assms(1) t by (simp add: filter_by_natural_language_def Let_def apply_parsed_matches)
  show "list_strings store (query_of f)
           = Listing (filter (matches f) (map_values store))
               (length (filter (matches f) (map_values store))) f"
    using list_strings_well_formed [of "query_of f" store] typed_ok_query [OF assms(2)] by simp
qed

subsection \<open>The filter on contained text\<close>

lemma well_formed_contains:
  "well_formed (q\<lparr>q_contains_character := Some ch\<rparr>)
     \<longleftrightarrow> ch \<noteq> [] \<and> well_formed (q\<lparr>q_contains_character := None\<rparr>)"
  by (auto simp: well_formed_def)

lemma typed_spec_contains:
  "typed_spec (q\<lparr>q_contains_character := Some ch\<rparr>)
     = (typed_spec (q\<lparr>q_contains_character := None\<rparr>))\<lparr>f_contains_character := Some ch\<rparr>"
  "p0_typed_spec (q\<lparr>q_contains_character := Some ch\<rparr>)
     = (p0_typed_spec (q\<lparr>q_contains_character := None\<rparr>))\<lparr>f_contains_character := Some ch\<rparr>"
  by (simp_all add: typed_spec_def p0_typed_spec_def)

lemma matches_contains:
  "f_contains_character f = None \<Longrightarrow>
   matches (f\<lparr>f_contains_character := Some ch\<rparr>) = (\<lambda>r. matches f r \<and> sublist ch (e_value r))"
  "f_contains_character f = None \<Longrightarrow>
   p0_matches (f\<lparr>f_contains_character := Some ch\<rparr>)
     = (\<lambda>r. p0_matches f r \<and> sublist ch (r_value r))"
  by (simp_all add: matches_def p0_matches_def str_includes_sublist fun_eq_iff)

text \<open>
  Claim C10. For every store and every \<^verbatim>\<open>contains_character\<close> string of at least one
  character, of whatever length, with the other parameters well-formed: \<^verbatim>\<open>GET /strings\<close>
  accepts the query and keeps a record exactly when it passes the other filters and its raw
  value has the string as a contiguous substring; the string is echoed as it came. The
  second server file does the same (and takes the empty string as well).
\<close>

theorem contains_character_is_substring:
  "(ch \<noteq> [] \<and> well_formed (q\<lparr>q_contains_character := None\<rparr>) \<longrightarrow>
      list_strings store (q\<lparr>q_contains_character := Some ch\<rparr>)
        = Listing
            (filter (\<lambda>r. matches (typed_spec (q\<lparr>q_contains_character := None\<rparr>)) r \<and>
                          sublist ch (e_value r)) (map_values store))
            (length (filter (\<lambda>r. matches (typed_spec (q\<lparr>q_contains_character := None\<rparr>)) r \<and>
                          sublist ch (e_value r)) (map_values store)))
            ((typed_spec (q\<lparr>q_contains_character := None\<rparr>))\<lparr>f_contains_character := Some ch\<rparr>)) \<and>
   p0_list_strings strDB (q\<lparr>q_contains_character := Some ch\<rparr>)
     = Listing
         (filter (\<lambda>r. p0_matches (p0_typed_spec (q\<lparr>q_contains_character := None\<rparr>)) r \<and>
                       sublist ch (r_value r)) (map_values strDB))
         (length (filter (\<lambda>r. p0_matches (p0_typed_spec (q\<lparr>q_contains_character := None\<rparr>)) r \<and>
                       sublist ch (r_value r)) (map_values strDB)))
         ((p0_typed_spec (q\<lparr>q_contains_character := None\<rparr>))\<lparr>f_contains_character := Some ch\<rparr>)"
proof (intro conjI impI)
  let ?q0 = "q\<lparr>q_contains_character := None\<rparr>"
  have none: "f_contains_character (typed_spec ?q0) = None"
    "f_contains_character (p0_typed_spec ?q0) = None"
    by (simp_all add: typed_spec_def p0_typed_spec_def)
  {
    assume "ch \<noteq> [] \<and> well_formed ?q0"
    then have "well_formed (q\<lparr>q_contains_character := Some ch\<rparr>)"
      by (simp add: well_formed_contains)
    then show "list_strings store (q\<lparr>q_contains_character := Some ch\<rparr>)
        = Listing
            (filter (\<lambda>r. matches (typed_spec ?q0) r \<and> sublist ch (e_value r)) (map_values store))
            (length (filter (\<lambda>r. matches (typed_spec ?q0) r \<and> sublist ch (e_value r))
               (map_values store)))
            ((typed_spec ?q0)\<lparr>f_contains_character := Some ch\<rparr>)"
      by (simp add: list_strings_well_formed typed_spec_contains matches_contains none)
  }
  show "p0_list_strings strDB (q\<lparr>q_contains_character := Some ch\<rparr>)
     = Listing
         (filter (\<lambda>r. p0_matches (p0_typed_spec ?q0) r \<and> sublist ch (r_value r)) (map_values strDB))
         (length (filter (\<lambda>r. p0_matches (p0_typed_spec ?q0) r \<and> sublist ch (r_value r))
            (map_values strDB)))
         ((p0_typed_spec ?q0)\<lparr>f_contains_character := Some ch\<rparr>)"
    by (simp add: p0_list_strings_eq typed_spec_contains matches_contains none)
qed


theorem contains_character_is_substring_witness:
  "''ab'' \<noteq> [] \<and> well_formed (no_query\<lparr>q_contains_character := None\<rparr>) \<and>
   map e_value (data (list_strings
       [(''k1'', new_entry toy_digest ''t1'' ''cab''), (''k2'', new_entry toy_digest ''t2'' ''acb'')]
       (no_query\<lparr>q_contains_character := Some ''ab''\<rparr>))) = [''cab'']"
proof -
  have wf: "well_formed (no_query\<lparr>q_contains_character := None\<rparr>)"
    by (simp add: well_formed_def no_query_def)
  have m: "matches (typed_spec (no_query\<lparr>q_contains_character := None\<rparr>)) r" for r
    by (simp add: matches_def typed_spec_def no_query_def)
  have s: "sublist ''ab'' ''cab''" "\<not> sublist ''ab'' ''acb''"
    by (simp_all add: str_includes_sublist [symmetric])
  from contains_character_is_substring
         [of "''ab''" no_query
             "[(''k1'', new_entry toy_digest ''t1'' ''cab''), (''k2'', new_entry toy_digest ''t2'' ''acb'')]"
             "[]"] wf
  show ?thesis
    by (simp add: m s map_values_def new_entry_def)
qed

section \<open>The natural-language interpreter\<close>

lemma min_length_parsed:
  "f_min_length (parsed_filters q) =
     (let low = toLowerCase q;
          longer = (case rx_match re_longer_than low of
                      None \<Rightarrow> None
                    | Some cap \<Rightarrow>
                        if isNaN (parseInt (toString cap) (Some 10)) then None
                        else Some (num_add_int (parseInt (toString cap) (Some 10)) 1))
      in case rx_match re_at_least low of
           None \<Rightarrow> longer
         | Some cap \<Rightarrow>
             if isNaN (parseInt (toString cap) (Some 10)) then longer
             else Some (parseInt (toString cap) (Some 10)))"
  by (simp add: parsed_filters_def parse_containing_def parse_first_vowel_def parse_at_least_def
        parse_longer_than_def parse_palindrome_def parse_single_word_def no_filters_def Let_def
        split: option.splits)

lemma contains_character_parsed:
  "f_contains_character (parsed_filters q) =
     (let low = toLowerCase q
      in case rx_match re_containing low of
           Some cap \<Rightarrow> cap
         | None \<Rightarrow> if rx_test re_first_vowel low then Some ''a'' else None)"
  by (simp add: parsed_filters_def parse_containing_def parse_first_vowel_def parse_at_least_def
        parse_longer_than_def parse_palindrome_def parse_single_word_def no_filters_def Let_def
        split: option.splits)

lemma interpret_query_keys:
  "f_min_length (parsed_filters q) \<noteq> None \<or> f_contains_character (parsed_filters q) \<noteq> None
     \<Longrightarrow> interpret_query q = Inr (parsed_filters q)"
  by (auto simp: interpret_query_def keys_count_def Let_def)

lemma p0_interpret_query_keys:
  "f_min_length (p0_parsed_filters q) \<noteq> None \<Longrightarrow> p0_interpret_query q = Inr (p0_parsed_filters q)"
  by (auto simp: p0_interpret_query_def keys_count_def Let_def)

lemma rx_step_Lit_prefix: "rx_step (Seq (Lit l) r) (p, s, cap) \<noteq> [] \<Longrightarrow> prefix l s"
  by (simp split: if_splits)

lemma rx_search_Lit_sublist: "rx_search (Seq (Lit l) r) p s = Some m \<Longrightarrow> sublist l s"
proof (induction s arbitrary: p)
  case Nil
  then have "rx_step (Seq (Lit l) r) (p, [], None) \<noteq> []"
    by (cases "rx_step (Seq (Lit l) r) (p, [], None)") (simp_all del: rx_step.simps)
  then have "prefix l []" by (rule rx_step_Lit_prefix)
  then show ?case by simp
next
  case (Cons c cs)
  show ?case
  proof (cases "rx_step (Seq (Lit l) r) (p, c # cs, None)")
    case Nil
    with Cons.prems have "rx_search (Seq (Lit l) r) (Some c) cs = Some m"
      by (simp del: rx_step.simps)
    then have "sublist l cs" by (rule Cons.IH)
    then show ?thesis by (simp add: sublist_Cons_right)
  next
    case (Cons m' ms)
    then have "prefix l (c # cs)"
      using rx_step_Lit_prefix [of l r p "c # cs" None] by (simp del: rx_step.simps)
    then show ?thesis by (simp add: sublist_Cons_right)
  qed
qed

lemma longer_than_includes:
  assumes "rx_match re_longer_than s = Some cap"
  shows "str_includes s ''longer than''"
proof -
  from assms obtain m where "rx_search re_longer_than None s = Some m"
    by (auto simp: rx_match_def split: option.splits)
  then have "sublist ''longer than '' s"
    unfolding re_longer_than_def by (rule rx_search_Lit_sublist)
  moreover have "sublist ''longer than'' ''longer than ''"
    by (simp add: str_includes_sublist [symmetric])
  ultimately have "sublist ''longer than'' s" by (rule sublist_order.order_trans [rotated])
  then show ?thesis by (simp add: str_includes_sublist)
qed

lemma p0_min_length_parsed:
  assumes "rx_match re_longer_than (toLowerCase q) = Some cap"
  shows "f_min_length (p0_parsed_filters q) = Some (num_add_int (parseInt (toString cap) None) 1)"
  using assms longer_than_includes [OF assms]
  by (simp add: p0_parsed_filters_def Let_def no_filters_def split: option.splits)


subsection \<open>The patterns, by what the regular expressions find\<close>

lemma patterns_by_match:
  "N < 2 ^ 53 \<longrightarrow>
     (rx_match re_longer_than (toLowerCase q1) = Some (Some (decimal N)) \<and>
      rx_match re_at_least (toLowerCase q1) = None \<longrightarrow>
        interpret_query q1 = Inr (parsed_filters q1) \<and>
        f_min_length (parsed_filters q1) = Some (Num (int N + 1))) \<and>
     (rx_match re_at_least (toLowerCase q2) = Some (Some (decimal N)) \<longrightarrow>
        interpret_query q2 = Inr (parsed_filters q2) \<and>
        f_min_length (parsed_filters q2) = Some (Num (int N))) \<and>
     (rx_test re_first_vowel (toLowerCase q3) \<and> rx_match re_containing (toLowerCase q3) = None \<longrightarrow>
        interpret_query q3 = Inr (parsed_filters q3) \<and>
        f_contains_character (parsed_filters q3) = Some ''a'') \<and>
     (rx_match re_longer_than (toLowerCase q4) = Some (Some (decimal N)) \<longrightarrow>
        p0_interpret_query q4 = Inr (p0_parsed_filters q4) \<and>
        f_min_length (p0_parsed_filters q4) = Some (Num (int N + 1)))"
proof (intro impI conjI)
  assume N: "N < 2 ^ 53"
  then have "int N < 2 ^ 53" by (metis of_nat_less_iff of_nat_numeral of_nat_power)
  then have exact: "to_number (int N) = Num (int N)" "to_number (int N + 1) = Num (int N + 1)"
    by (simp_all add: to_number_exact)
  have longer: "num_add_int (parseInt (toString (Some (decimal N))) r) 1 = Num (int N + 1)"
    if "r = Some 10 \<or> r = None" for r
    using that by (auto simp: toString_def parseInt_decimal exact)
  have least: "parseInt (toString (Some (decimal N))) (Some 10) = Num (int N)"
    by (simp add: toString_def parseInt_decimal exact)
  {
    assume a: "rx_match re_longer_than (toLowerCase q1) = Some (Some (decimal N)) \<and>
      rx_match re_at_least (toLowerCase q1) = None"
    then show m1: "f_min_length (parsed_filters q1) = Some (Num (int N + 1))"
      by (simp add: min_length_parsed Let_def longer toString_def parseInt_decimal exact)
    then show "interpret_query q1 = Inr (parsed_filters q1)"
      by (simp add: interpret_query_keys)
  }
  {
    assume a: "rx_match re_at_least (toLowerCase q2) = Some (Some (decimal N))"
    then show m2: "f_min_length (parsed_filters q2) = Some (Num (int N))"
      by (simp add: min_length_parsed Let_def least)
    then show "interpret_query q2 = Inr (parsed_filters q2)"
      by (simp add: interpret_query_keys)
  }
  {
    assume a: "rx_test re_first_vowel (toLowerCase q3) \<and>
      rx_match re_containing (toLowerCase q3) = None"
    then show m3: "f_contains_character (parsed_filters q3) = Some ''a''"
      by (simp add: contains_character_parsed Let_def)
    then show "interpret_query q3 = Inr (parsed_filters q3)"
      by (simp add: interpret_query_keys)
  }
  {
    assume a: "rx_match re_longer_than (toLowerCase q4) = Some (Some (decimal N))"
    then show m4: "f_min_length (p0_parsed_filters q4) = Some (Num (int N + 1))"
      by (simp add: p0_min_length_parsed longer)
    then show "p0_interpret_query q4 = Inr (p0_parsed_filters q4)"
      by (simp add: p0_interpret_query_keys)
  }
qed



subsection \<open>Where the regular expressions match\<close>

lemma begins_with_literal_Lit: "begins_with_literal (Seq (Lit l) r) l"
  by (simp add: begins_with_literal_def)

lemma begins_with_literal_WordB: "begins_with_literal (Seq WordB (Seq (Lit l) r)) l"
  by (simp add: begins_with_literal_def)

lemma rx_step_Nil:
  "begins_with_literal r l \<Longrightarrow> \<not> prefix l t \<Longrightarrow> rx_step r (p, t, cap) = []"
  unfolding begins_with_literal_def by blast

lemma rx_search_None:
  assumes "begins_with_literal r l" and "\<not> sublist l s"
  shows "rx_search r p s = None"
  using assms(2)
proof (induction s arbitrary: p)
  case Nil
  then have "\<not> prefix l []" by auto
  then show ?case using rx_step_Nil [OF assms(1)] by (simp del: rx_step.simps)
next
  case (Cons c cs)
  then have "\<not> prefix l (c # cs)" and "\<not> sublist l cs"
    by (auto simp: sublist_Cons_right)
  then show ?case using rx_step_Nil [OF assms(1)] Cons.IH by (simp del: rx_step.simps)
qed

lemma prefix_inside:
  assumes "x \<noteq> []" and "l \<noteq> []" and "prefix l (x @ l @ s)"
  shows "sublist l (x @ butlast l)"
proof -
  have "prefix (x @ butlast l) (x @ l @ s)"
    using assms(2) by (metis append_butlast_last_id append_assoc prefixI same_prefix_prefix)
  moreover have "length l \<le> length (x @ butlast l)"
    using assms(1,2) by (cases x) auto
  ultimately have "prefix l (x @ butlast l)"
    using assms(3) prefix_length_prefix by blast
  then show ?thesis by (rule prefix_imp_sublist)
qed

lemma rx_search_skip:
  assumes "begins_with_literal r l" and "l \<noteq> []"
  shows "\<not> sublist l (pre @ butlast l) \<Longrightarrow>
         rx_search r p (pre @ l @ s) = rx_search r (char_before p pre) (l @ s)"
proof (induction pre arbitrary: p)
  case Nil
  then show ?case by (simp add: char_before_def)
next
  case (Cons c pre)
  have "\<not> prefix l ((c # pre) @ l @ s)"
    using Cons.prems prefix_inside [of "c # pre" l s] assms(2) by blast
  then have step: "rx_step r (p, c # pre @ l @ s, None) = []"
    using rx_step_Nil [OF assms(1)] by simp
  from Cons.prems have "\<not> sublist l (pre @ butlast l)"
    by (simp add: sublist_Cons_right)
  then have "rx_search r (Some c) (pre @ l @ s) = rx_search r (char_before (Some c) pre) (l @ s)"
    by (rule Cons.IH)
  with step show ?case by (simp add: char_before_def del: rx_step.simps)
qed

lemma rx_search_here:
  "s \<noteq> [] \<Longrightarrow> rx_step r (p, s, None) = m # ms \<Longrightarrow> rx_search r p s = Some m"
  by (cases s) (simp_all del: rx_step.simps)

lemma rx_search_exists:
  "rx_step r (char_before p pre, s, None) \<noteq> [] \<Longrightarrow> rx_search r p (pre @ s) \<noteq> None"
proof (induction pre arbitrary: p)
  case Nil
  then show ?case
    by (cases s; cases "rx_step r (p, s, None)") (simp_all add: char_before_def del: rx_step.simps)
next
  case (Cons c pre)
  then have "rx_search r (Some c) (pre @ s) \<noteq> None"
    by (simp add: char_before_def split: if_splits)
  then show ?case
    by (cases "rx_step r (p, c # pre @ s, None)") (simp_all del: rx_step.simps)
qed


lemma starts_with_takeWhile:
  "\<not> starts_with P post \<Longrightarrow> \<forall>c \<in> set ds. P c \<Longrightarrow> takeWhile P (ds @ post) = ds"
  by (cases post) (simp_all add: starts_with_def)

lemma rev_upt_from_1: "0 < n \<Longrightarrow> rev [1 ..< Suc n] = n # rev [1 ..< n]"
  by (cases n) simp_all

lemma rx_step_Grp_Plus:
  assumes "ds \<noteq> []" and "\<forall>c \<in> set ds. P c" and "\<not> starts_with P post"
  shows "\<exists>ms. rx_step (Grp (Plus P)) (p, ds @ post, cap) = (Some (last ds), post, Some ds) # ms"
proof -
  have n: "0 < length ds" "Suc 0 \<le> length ds" using assms(1) by (simp_all add: Suc_le_eq)
  have "advance (length ds) (p, ds @ post, cap) = (Some (last ds), post, cap)"
    using assms(1) by (simp add: advance_def nth_append last_conv_nth)
  then show ?thesis
    using n by (simp add: starts_with_takeWhile [OF assms(3,2)] rev_upt_from_1)
qed

lemma rx_step_Seq_Lit:
  "l \<noteq> [] \<Longrightarrow> rx_step (Seq (Lit l) r) (p, l @ t, cap) = rx_step r (Some (last l), t, cap)"
  by (simp add: advance_def nth_append last_conv_nth)

lemma rx_step_Seq_WordB:
  "rx_step (Seq WordB r) (p, t, cap) = (if wordBefore p \<noteq> wordAfter t then rx_step r (p, t, cap) else [])"
  by simp

lemma word_ends:
  "wordAfter s = starts_with isWordChar s"
  "wordBefore (char_before None pre) = ends_with isWordChar pre"
  by (simp_all add: wordAfter_def wordBefore_def starts_with_def ends_with_def char_before_def)

lemma longer_than_found:
  assumes low: "low = pre @ ''longer than '' @ ds @ post"
    and ds: "ds \<noteq> []" "\<forall>c \<in> set ds. isDigit c" and post: "\<not> starts_with isDigit post"
    and first: "\<not> sublist ''longer than '' (pre @ ''longer than'')"
  shows "rx_match re_longer_than low = Some (Some ds)"
proof -
  let ?l = "''longer than ''"
  obtain ms where "rx_step (Grp (Plus isDigit)) (Some (last ?l), ds @ post, None)
                     = (Some (last ds), post, Some ds) # ms"
    using rx_step_Grp_Plus [OF ds post] by blast
  then have "rx_step re_longer_than (char_before None pre, ?l @ ds @ post, None)
               = (Some (last ds), post, Some ds) # ms"
    unfolding re_longer_than_def by (subst rx_step_Seq_Lit) simp_all
  then have "rx_search re_longer_than (char_before None pre) (?l @ ds @ post)
               = Some (Some (last ds), post, Some ds)"
    by (intro rx_search_here) simp_all
  moreover have "rx_search re_longer_than None (pre @ ?l @ ds @ post)
                   = rx_search re_longer_than (char_before None pre) (?l @ ds @ post)"
    using first
    by (intro rx_search_skip [where l = ?l]) (simp_all add: re_longer_than_def begins_with_literal_Lit)
  ultimately show ?thesis by (simp add: rx_match_def low)
qed


lemma at_least_found:
  assumes low: "low = pre @ ''at least '' @ ds @ post"
    and ds: "ds \<noteq> []" "\<forall>c \<in> set ds. isDigit c"
    and before: "\<not> ends_with isWordChar pre" and after: "\<not> starts_with isWordChar post"
    and first: "\<not> sublist ''at least '' (pre @ ''at least'')"
  shows "rx_match re_at_least low = Some (Some ds)"
proof -
  let ?l = "''at least ''"
  have post: "\<not> starts_with isDigit post"
    using after by (cases post) (auto simp: starts_with_def isWordChar_def isAlnum_def)
  have "isDigit (last ds)" using ds by simp
  then have w: "wordBefore (Some (last ds))"
    by (simp add: wordBefore_def isWordChar_def isAlnum_def)
  obtain ms where "rx_step (Grp (Plus isDigit)) (Some (last ?l), ds @ post, None)
                     = (Some (last ds), post, Some ds) # ms"
    using rx_step_Grp_Plus [OF ds post] by blast
  then have "\<exists>ms'. rx_step (Seq (Grp (Plus isDigit)) WordB) (Some (last ?l), ds @ post, None)
                     = (Some (last ds), post, Some ds) # ms'"
    using w after by (simp add: word_ends del: rx_step.simps(3,7))
  moreover have "rx_step (Seq (Lit ?l) (Seq (Grp (Plus isDigit)) WordB))
                   (char_before None pre, ?l @ ds @ post, None)
                 = rx_step (Seq (Grp (Plus isDigit)) WordB) (Some (last ?l), ds @ post, None)"
    by (rule rx_step_Seq_Lit) simp
  ultimately obtain ms' where "rx_step (Seq (Lit ?l) (Seq (Grp (Plus isDigit)) WordB))
                           (char_before None pre, ?l @ ds @ post, None)
                     = (Some (last ds), post, Some ds) # ms'"
    by auto
  moreover have "wordBefore (char_before None pre) \<noteq> wordAfter (?l @ ds @ post)"
    using before by (simp add: word_ends starts_with_def isWordChar_def isAlnum_def isAsciiLower_def)
  ultimately have "rx_step re_at_least (char_before None pre, ?l @ ds @ post, None)
               = (Some (last ds), post, Some ds) # ms'"
    unfolding re_at_least_def by (subst rx_step_Seq_WordB) simp
  then have "rx_search re_at_least (char_before None pre) (?l @ ds @ post)
               = Some (Some (last ds), post, Some ds)"
    by (intro rx_search_here) simp_all
  moreover have "rx_search re_at_least None (pre @ ?l @ ds @ post)
                   = rx_search re_at_least (char_before None pre) (?l @ ds @ post)"
    using first
    by (intro rx_search_skip [where l = ?l]) (simp_all add: re_at_least_def begins_with_literal_WordB)
  ultimately show ?thesis by (simp add: rx_match_def low)
qed

lemma first_vowel_found:
  assumes low: "low = pre @ ''first vowel'' @ post"
    and before: "\<not> ends_with isWordChar pre" and after: "\<not> starts_with isWordChar post"
  shows "rx_test re_first_vowel low"
proof -
  let ?l = "''first vowel''"
  have "wordBefore (Some (last ?l))"
    by (simp add: wordBefore_def isWordChar_def isAlnum_def isAsciiLower_def)
  then have "rx_step (Seq (Lit ?l) WordB) (char_before None pre, ?l @ post, None) \<noteq> []"
    using after by (subst rx_step_Seq_Lit) (simp_all add: word_ends)
  moreover have "wordBefore (char_before None pre) \<noteq> wordAfter (?l @ post)"
    using before by (simp add: word_ends starts_with_def isWordChar_def isAlnum_def isAsciiLower_def)
  ultimately have "rx_step re_first_vowel (char_before None pre, ?l @ post, None) \<noteq> []"
    unfolding re_first_vowel_def by (subst rx_step_Seq_WordB) simp
  then have "rx_search re_first_vowel None (pre @ ?l @ post) \<noteq> None"
    by (rule rx_search_exists)
  then show ?thesis by (simp add: rx_test_def low)
qed

lemma at_least_absent: "\<not> sublist ''at least '' low \<Longrightarrow> rx_match re_at_least low = None"
  using rx_search_None [of re_at_least "''at least ''" low None]
  by (simp add: rx_match_def re_at_least_def begins_with_literal_WordB)

lemma containing_absent: "\<not> sublist ''containing '' low \<Longrightarrow> rx_match re_containing low = None"
  using rx_search_None [of re_containing "''containing ''" low None]
  by (simp add: rx_match_def re_containing_def begins_with_literal_Lit)



subsection \<open>The patterns, by the text of the query\<close>

text \<open>
  Claim C5, amended. For every natural number \<open>N\<close> below \<open>2^53\<close>, written in decimal, the
  interpreter of \<^verbatim>\<open>index.js\<close> maps
  \<^item> a query (lower-cased) whose first \<^verbatim>\<open>longer than\<close> with a space after it is followed by
    the numeral \<open>N\<close> and no further digit, and which nowhere holds \<^verbatim>\<open>at least\<close> with a space
    after it, to \<^verbatim>\<open>min_length\<close> \<open>N + 1\<close>;
  \<^item> a query whose first \<^verbatim>\<open>at least\<close> with a space after it begins a word and is followed
    by the numeral \<open>N\<close>, which ends a word, to \<^verbatim>\<open>min_length\<close> \<open>N\<close>, whatever else it holds;
  \<^item> a query that holds \<^verbatim>\<open>first vowel\<close> as whole words, and nowhere \<^verbatim>\<open>containing\<close> with a
    space after it, to \<^verbatim>\<open>contains_character\<close> \<^verbatim>\<open>a\<close>.

  The second server file knows the first of the three patterns only, and gives \<open>N + 1\<close> for
  it.
\<close>

theorem query_patterns:
  "N < 2 ^ 53 \<longrightarrow>
     (toLowerCase q1 = pre1 @ ''longer than '' @ decimal N @ post1 \<and>
      \<not> starts_with isDigit post1 \<and>
      \<not> sublist ''longer than '' (pre1 @ ''longer than'') \<and>
      \<not> sublist ''at least '' (toLowerCase q1) \<longrightarrow>
        interpret_query q1 = Inr (parsed_filters q1) \<and>
        f_min_length (parsed_filters q1) = Some (Num (int N + 1))) \<and>
     (toLowerCase q2 = pre2 @ ''at least '' @ decimal N @ post2 \<and>
      \<not> ends_with isWordChar pre2 \<and> \<not> starts_with isWordChar post2 \<and>
      \<not> sublist ''at least '' (pre2 @ ''at least'') \<longrightarrow>
        interpret_query q2 = Inr (parsed_filters q2) \<and>
        f_min_length (parsed_filters q2) = Some (Num (int N))) \<and>
     (toLowerCase q3 = pre3 @ ''first vowel'' @ post3 \<and>
      \<not> ends_with isWordChar pre3 \<and> \<not> starts_with isWordChar post3 \<and>
      \<not> sublist ''containing '' (toLowerCase q3) \<longrightarrow>
        interpret_query q3 = Inr (parsed_filters q3) \<and>
        f_contains_character (parsed_filters q3) = Some ''a'') \<and>
     (toLowerCase q4 = pre4 @ ''longer than '' @ decimal N @ post4 \<and>
      \<not> starts_with isDigit post4 \<and>
      \<not> sublist ''longer than '' (pre4 @ ''longer than'') \<longrightarrow>
        p0_interpret_query q4 = Inr (p0_parsed_filters q4) \<and>
        f_min_length (p0_parsed_filters q4) = Some (Num (int N + 1)))"
proof (rule impI)
  assume N: "N < 2 ^ 53"
  note m = patterns_by_match [of N q1 q2 q3 q4, rule_format, OF N]
  note d = decimal_digits [of N]
  have 1: "interpret_query q1 = Inr (parsed_filters q1) \<and>
           f_min_length (parsed_filters q1) = Some (Num (int N + 1))"
    if "toLowerCase q1 = pre1 @ ''longer than '' @ decimal N @ post1 \<and>
        \<not> starts_with isDigit post1 \<and>
        \<not> sublist ''longer than '' (pre1 @ ''longer than'') \<and>
        \<not> sublist ''at least '' (toLowerCase q1)"
    using that m longer_than_found [of "toLowerCase q1" pre1 "decimal N" post1] d
      at_least_absent [of "toLowerCase q1"]
    by blast
  have 2: "interpret_query q2 = Inr (parsed_filters q2) \<and>
           f_min_length (parsed_filters q2) = Some (Num (int N))"
    if "toLowerCase q2 = pre2 @ ''at least '' @ decimal N @ post2 \<and>
        \<not> ends_with isWordChar pre2 \<and> \<not> starts_with isWordChar post2 \<and>
        \<not> sublist ''at least '' (pre2 @ ''at least'')"
    using that m at_least_found [of "toLowerCase q2" pre2 "decimal N" post2] d
    by blast
  have 3: "interpret_query q3 = Inr (parsed_filters q3) \<and>
           f_contains_character (parsed_filters q3) = Some ''a''"
    if "toLowerCase q3 = pre3 @ ''first vowel'' @ post3 \<and>
        \<not> ends_with isWordChar pre3 \<and> \<not> starts_with isWordChar post3 \<and>
        \<not> sublist ''containing '' (toLowerCase q3)"
    using that m first_vowel_found [of "toLowerCase q3" pre3 post3]
      containing_absent [of "toLowerCase q3"]
    by blast
  have 4: "p0_interpret_query q4 = Inr (p0_parsed_filters q4) \<and>
           f_min_length (p0_parsed_filters q4) = Some (Num (int N + 1))"
    if "toLowerCase q4 = pre4 @ ''longer than '' @ decimal N @ post4 \<and>
        \<not> starts_with isDigit post4 \<and>
        \<not> sublist ''longer than '' (pre4 @ ''longer than'')"
    using that m longer_than_found [of "toLowerCase q4" pre4 "decimal N" post4] d
    by blast
  from 1 2 3 4 show "(toLowerCase q1 = pre1 @ ''longer than '' @ decimal N @ post1 \<and>
      \<not> starts_with isDigit post1 \<and>
      \<not> sublist ''longer than '' (pre1 @ ''longer than'') \<and>
      \<not> sublist ''at least '' (toLowerCase q1) \<longrightarrow>
        interpret_query q1 = Inr (parsed_filters q1) \<and>
        f_min_length (parsed_filters q1) = Some (Num (int N + 1))) \<and>
     (toLowerCase q2 = pre2 @ ''at least '' @ decimal N @ post2 \<and>
      \<not> ends_with isWordChar pre2 \<and> \<not> starts_with isWordChar post2 \<and>
      \<not> sublist ''at least '' (pre2 @ ''at least'') \<longrightarrow>
        interpret_query q2 = Inr (parsed_filters q2) \<and>
        f_min_length (parsed_filters q2) = Some (Num (int N))) \<and>
     (toLowerCase q3 = pre3 @ ''first vowel'' @ post3 \<and>
      \<not> ends_with isWordChar pre3 \<and> \<not> starts_with isWordChar post3 \<and>
      \<not> sublist ''containing '' (toLowerCase q3) \<longrightarrow>
        interpret_query q3 = Inr (parsed_filters q3) \<and>
        f_contains_character (parsed_filters q3) = Some ''a'') \<and>
     (toLowerCase q4 = pre4 @ ''longer than '' @ decimal N @ post4 \<and>
      \<not> starts_with isDigit post4 \<and>
      \<not> sublist ''longer than '' (pre4 @ ''longer than'') \<longrightarrow>
        p0_interpret_query q4 = Inr (p0_parsed_filters q4) \<and>
        f_min_length (p0_parsed_filters q4) = Some (Num (int N + 1)))"
    by blast
qed


theorem query_patterns_witness:
  "(10 :: nat) < 2 ^ 53 \<and>
   toLowerCase ''Strings longer than 10 characters''
     = ''strings '' @ ''longer than '' @ decimal 10 @ '' characters'' \<and>
   \<not> starts_with isDigit '' characters'' \<and>
   \<not> sublist ''longer than '' (''strings '' @ ''longer than'') \<and>
   \<not> sublist ''at least '' (toLowerCase ''Strings longer than 10 characters'') \<and>
   f_min_length (parsed_filters ''Strings longer than 10 characters'') = Some (Num 11) \<and>
   toLowerCase ''strings with at least 10 characters''
     = ''strings with '' @ ''at least '' @ decimal 10 @ '' characters'' \<and>
   \<not> ends_with isWordChar ''strings with '' \<and>
   \<not> starts_with isWordChar '' characters'' \<and>
   \<not> sublist ''at least '' (''strings with '' @ ''at least'') \<and>
   f_min_length (parsed_filters ''strings with at least 10 characters'') = Some (Num 10) \<and>
   toLowerCase ''palindromic strings that contain the first vowel''
     = ''palindromic strings that contain the '' @ ''first vowel'' @ [] \<and>
   \<not> ends_with isWordChar ''palindromic strings that contain the '' \<and>
   \<not> starts_with isWordChar [] \<and>
   \<not> sublist ''containing '' (toLowerCase ''palindromic strings that contain the first vowel'') \<and>
   f_contains_character (parsed_filters ''palindromic strings that contain the first vowel'')
     = Some ''a'' \<and>
   f_min_length (p0_parsed_filters ''Strings longer than 10 characters'') = Some (Num 11)"
proof -
  have n: "(10 :: nat) < 2 ^ 53" by simp
  have d: "decimal 10 = ''10''" by (simp add: decimal.simps digit_of_def)
  have a1: "toLowerCase ''Strings longer than 10 characters''
              = ''strings '' @ ''longer than '' @ decimal 10 @ '' characters''"
    unfolding d by code_simp
  have a2: "\<not> starts_with isDigit '' characters''" by code_simp
  have a3: "\<not> sublist ''longer than '' (''strings '' @ ''longer than'')"
    unfolding str_includes_sublist [symmetric] by code_simp
  have a4: "\<not> sublist ''at least '' (toLowerCase ''Strings longer than 10 characters'')"
    unfolding str_includes_sublist [symmetric] by code_simp
  have b1: "toLowerCase ''strings with at least 10 characters''
              = ''strings with '' @ ''at least '' @ decimal 10 @ '' characters''"
    unfolding d by code_simp
  have b2: "\<not> ends_with isWordChar ''strings with ''" by code_simp
  have b3: "\<not> starts_with isWordChar '' characters''" by code_simp
  have b4: "\<not> sublist ''at least '' (''strings with '' @ ''at least'')"
    unfolding str_includes_sublist [symmetric] by code_simp
  have c1: "toLowerCase ''palindromic strings that contain the first vowel''
              = ''palindromic strings that contain the '' @ ''first vowel'' @ []"
    by code_simp
  have c2: "\<not> ends_with isWordChar ''palindromic strings that contain the ''" by code_simp
  have c3: "\<not> starts_with isWordChar []" by code_simp
  have c4: "\<not> sublist ''containing ''
                 (toLowerCase ''palindromic strings that contain the first vowel'')"
    unfolding str_includes_sublist [symmetric] by code_simp
  from query_patterns
         [of 10 "''Strings longer than 10 characters''" "''strings ''" "'' characters''"
             "''strings with at least 10 characters''" "''strings with ''" "'' characters''"
             "''palindromic strings that contain the first vowel''"
             "''palindromic strings that contain the ''" "[]"
             "''Strings longer than 10 characters''" "''strings ''" "'' characters''"]
       n a1 a2 a3 a4 b1 b2 b3 b4 c1 c2 c3 c4
  have "f_min_length (parsed_filters ''Strings longer than 10 characters'') = Some (Num 11)"
    and "f_min_length (parsed_filters ''strings with at least 10 characters'') = Some (Num 10)"
    and "f_contains_character (parsed_filters ''palindromic strings that contain the first vowel'')
           = Some ''a''"
    and "f_min_length (p0_parsed_filters ''Strings longer than 10 characters'') = Some (Num 11)"
    by simp_all
  with n a1 a2 a3 a4 b1 b2 b3 b4 c1 c2 c3 c4 show ?thesis by blast
qed

text \<open>
  The claim as it stands fails in three ways: \<^verbatim>\<open>at least\<close> is read after
  \<^verbatim>\<open>longer than\<close> and overwrites \<^verbatim>\<open>min_length\<close>; \<^verbatim>\<open>containing\<close> is read after
  \<^verbatim>\<open>first vowel\<close> and overwrites \<^verbatim>\<open>contains_character\<close> (here with the \<^verbatim>\<open>t\<close> of
  \<^verbatim>\<open>the\<close>); and \<open>2^53 + 1\<close> is not a Number, so that adding one to \<open>2^53\<close> gives \<open>2^53\<close>.
\<close>

theorem query_patterns_counterexample:
  "f_min_length (parsed_filters ''strings longer than 5 and at least 3 characters'')
     = Some (Num 3) \<and>
   f_contains_character (parsed_filters ''strings containing the first vowel'') = Some ''t'' \<and>
   f_min_length (parsed_filters ''strings longer than 9007199254740992 characters'')
     = Some (Num 9007199254740992)"
  by code_simp


subsection \<open>What the regular expressions capture\<close>

lemma rx_search_in_step:
  "rx_search r p s = Some m \<Longrightarrow> \<exists>p' s'. m \<in> set (rx_step r (p', s', None))"
proof (induction s arbitrary: p)
  case Nil
  then have "m \<in> set (rx_step r (p, [], None))"
    by (cases "rx_step r (p, [], None)") (simp_all del: rx_step.simps)
  then show ?case by blast
next
  case (Cons c cs)
  show ?case
  proof (cases "rx_step r (p, c # cs, None)")
    case Nil
    with Cons show ?thesis by (simp del: rx_step.simps)
  next
    case (Cons m' ms)
    with Cons.prems have "m \<in> set (rx_step r (p, c # cs, None))" by (simp del: rx_step.simps)
    then show ?thesis by blast
  qed
qed

lemma digits_captured:
  assumes "m \<in> set (rx_step (Grp (Plus isDigit)) st)"
  shows "\<exists>ds. snd (snd m) = Some ds \<and> ds \<noteq> [] \<and> (\<forall>c \<in> set ds. isDigit c)"
proof -
  obtain p s cap where st: "st = (p, s, cap)" by (cases st)
  from assms obtain k where k: "1 \<le> k" "k \<le> length (takeWhile isDigit s)"
    and m: "snd (snd m) = Some (take (length s - length (drop k s)) s)"
    by (auto simp: st advance_def)
  have "k \<le> length s" using k(2) length_takeWhile_le [of isDigit s] by linarith
  then have "take (length s - length (drop k s)) s = take k s" by simp
  moreover have "take k s = take k (takeWhile isDigit s)"
    using k(2) by (metis takeWhile_dropWhile_id take_append diff_is_0_eq take_0 append_Nil2)
  moreover have "\<forall>c \<in> set (take k (takeWhile isDigit s)). isDigit c"
    by (meson in_set_takeD set_takeWhileD)
  moreover have "take k (takeWhile isDigit s) \<noteq> []" using k by auto
  ultimately show ?thesis using m by auto
qed

lemma char_captured:
  assumes "m \<in> set (rx_step (Grp (Cls P)) st)"
  shows "\<exists>c. snd (snd m) = Some [c] \<and> P c"
proof -
  obtain p s cap where st: "st = (p, s, cap)" by (cases st)
  with assms show ?thesis by (cases s) (auto split: if_splits)
qed

lemma in_Seq: "m \<in> set (rx_step (Seq a b) st) \<Longrightarrow> \<exists>st'. m \<in> set (rx_step b st')"
  by auto

lemma in_Seq_WordB: "m \<in> set (rx_step (Seq a WordB) st) \<Longrightarrow> m \<in> set (rx_step a st)"
  by (auto split: if_splits)

lemma rx_match_in_step:
  assumes "rx_match r low = Some cap"
  shows "\<exists>p rest st. (p, rest, cap) \<in> set (rx_step r st)"
proof -
  from assms obtain p rest where "rx_search r None low = Some (p, rest, cap)"
    by (auto simp: rx_match_def split: option.splits)
  from rx_search_in_step [OF this] show ?thesis by blast
qed

lemma longer_than_captures:
  assumes "rx_match re_longer_than low = Some cap"
  shows "\<exists>ds. cap = Some ds \<and> ds \<noteq> [] \<and> (\<forall>c \<in> set ds. isDigit c)"
proof -
  from rx_match_in_step [OF assms] obtain p rest st
    where "(p, rest, cap) \<in> set (rx_step re_longer_than st)" by blast
  then have "\<exists>st'. (p, rest, cap) \<in> set (rx_step (Grp (Plus isDigit)) st')"
    unfolding re_longer_than_def by (rule in_Seq)
  then obtain st' where "(p, rest, cap) \<in> set (rx_step (Grp (Plus isDigit)) st')" ..
  from digits_captured [OF this] show ?thesis by simp
qed

lemma at_least_captures:
  assumes "rx_match re_at_least low = Some cap"
  shows "\<exists>ds. cap = Some ds \<and> ds \<noteq> [] \<and> (\<forall>c \<in> set ds. isDigit c)"
proof -
  from rx_match_in_step [OF assms] obtain p rest st
    where "(p, rest, cap) \<in> set (rx_step re_at_least st)" by blast
  then have "\<exists>st'. (p, rest, cap) \<in> set (rx_step (Seq (Lit ''at least '')
      (Seq (Grp (Plus isDigit)) WordB)) st')"
    unfolding re_at_least_def by (rule in_Seq)
  then obtain st' where "(p, rest, cap) \<in> set (rx_step (Seq (Lit ''at least '')
      (Seq (Grp (Plus isDigit)) WordB)) st')" ..
  then have "\<exists>st''. (p, rest, cap) \<in> set (rx_step (Seq (Grp (Plus isDigit)) WordB) st'')"
    by (rule in_Seq)
  then obtain st'' where "(p, rest, cap) \<in> set (rx_step (Seq (Grp (Plus isDigit)) WordB) st'')" ..
  then have "(p, rest, cap) \<in> set (rx_step (Grp (Plus isDigit)) st'')"
    by (rule in_Seq_WordB)
  from digits_captured [OF this] show ?thesis by simp
qed

lemma containing_captures:
  assumes "rx_match re_containing low = Some cap"
  shows "\<exists>c. cap = Some [c] \<and> isAlnum c"
proof -
  from rx_match_in_step [OF assms] obtain p rest st
    where "(p, rest, cap) \<in> set (rx_step re_containing st)" by blast
  then have "\<exists>st'. (p, rest, cap) \<in> set (rx_step (Seq (Opt (Lit ''the letter ''))
      (Grp (Cls isAlnum))) st')"
    unfolding re_containing_def by (rule in_Seq)
  then obtain st' where "(p, rest, cap) \<in> set (rx_step (Seq (Opt (Lit ''the letter ''))
      (Grp (Cls isAlnum))) st')" ..
  then have "\<exists>st''. (p, rest, cap) \<in> set (rx_step (Grp (Cls isAlnum)) st'')"
    by (rule in_Seq)
  then obtain st'' where "(p, rest, cap) \<in> set (rx_step (Grp (Cls isAlnum)) st'')" ..
  from char_captured [OF this] show ?thesis by simp
qed

lemma letter_captures:
  assumes "rx_match re_letter low = Some cap"
  shows "\<exists>c. cap = Some [c] \<and> isWordChar c"
proof -
  from rx_match_in_step [OF assms] obtain p rest st
    where "(p, rest, cap) \<in> set (rx_step re_letter st)" by blast
  then have "\<exists>st'. (p, rest, cap) \<in> set (rx_step (Grp (Cls isWordChar)) st')"
    unfolding re_letter_def by (rule in_Seq)
  then obtain st' where "(p, rest, cap) \<in> set (rx_step (Grp (Cls isWordChar)) st')" ..
  from char_captured [OF this] show ?thesis by simp
qed

lemma to_number_not_NaN: "\<not> isNaN (to_number n)"
  by (simp add: to_number_def Let_def)

lemma digits_parse:
  assumes "ds \<noteq> []" and "\<forall>c \<in> set ds. isDigit c"
  shows "\<not> isNaN (parseInt (toString (Some ds)) (Some 10))"
  using parseInt_digits(1) [OF assms] by (simp add: toString_def to_number_not_NaN)


lemma word_count_parsed:
  "f_word_count (parsed_filters q)
     = (if rx_test re_single_word (toLowerCase q) then Some (Num 1) else None)"
  by (simp add: parsed_filters_def parse_containing_def parse_first_vowel_def parse_at_least_def
        parse_longer_than_def parse_palindrome_def parse_single_word_def no_filters_def Let_def
        split: option.splits)

lemma is_palindrome_parsed:
  "f_is_palindrome (parsed_filters q)
     = (if rx_test re_palindrome (toLowerCase q) then Some True else None)"
  by (simp add: parsed_filters_def parse_containing_def parse_first_vowel_def parse_at_least_def
        parse_longer_than_def parse_palindrome_def parse_single_word_def no_filters_def Let_def
        split: option.splits)

lemma min_length_set:
  "f_min_length (parsed_filters q) = None \<longleftrightarrow>
     rx_match re_longer_than (toLowerCase q) = None \<and> rx_match re_at_least (toLowerCase q) = None"
proof -
  have l: "\<not> isNaN (parseInt (toString cap) (Some 10))"
    if "rx_match re_longer_than (toLowerCase q) = Some cap" for cap
    using longer_than_captures [OF that] digits_parse by auto
  have a: "\<not> isNaN (parseInt (toString cap) (Some 10))"
    if "rx_match re_at_least (toLowerCase q) = Some cap" for cap
    using at_least_captures [OF that] digits_parse by auto
  show ?thesis
    by (auto simp: min_length_parsed Let_def l a split: option.splits)
qed

lemma contains_character_set:
  "f_contains_character (parsed_filters q) = None \<longleftrightarrow>
     \<not> rx_test re_first_vowel (toLowerCase q) \<and> rx_match re_containing (toLowerCase q) = None"
  using containing_captures [of "toLowerCase q"]
  by (auto simp: contains_character_parsed Let_def split: option.splits)

lemma keys_count_0:
  "keys_count f = 0 \<longleftrightarrow>
     f_is_palindrome f = None \<and> f_min_length f = None \<and> f_max_length f = None \<and>
     f_word_count f = None \<and> f_contains_character f = None"
  by (simp add: keys_count_def)

lemma unparseable_iff: "interpret_query q = Inl Unable_to_parse \<longleftrightarrow> no_pattern_fires q"
proof -
  have "interpret_query q = Inl Unable_to_parse \<longleftrightarrow> keys_count (parsed_filters q) = 0"
    by (simp add: interpret_query_def Let_def)
  also have "\<dots> \<longleftrightarrow> no_pattern_fires q"
    unfolding keys_count_0 min_length_set contains_character_set
    by (auto simp: word_count_parsed is_palindrome_parsed parsed_filters_no_max
          no_pattern_fires_def Let_def)
  finally show ?thesis .
qed

lemma p0_unparseable_iff: "p0_interpret_query q = Inl Unable_to_parse \<longleftrightarrow> p0_no_pattern_fires q"
proof -
  have "p0_interpret_query q = Inl Unable_to_parse \<longleftrightarrow> keys_count (p0_parsed_filters q) = 0"
    by (simp add: p0_interpret_query_def Let_def)
  also have "\<dots> \<longleftrightarrow> p0_no_pattern_fires q"
    using letter_captures [of "toLowerCase q"]
    unfolding keys_count_0
    by (auto simp: p0_parsed_filters_def p0_no_pattern_fires_def no_filters_def Let_def
          split: option.splits)
  finally show ?thesis .
qed

subsection \<open>Queries that are not understood\<close>

text \<open>
  Claim C6. For every query text in which none of the patterns is found, the interpreter
  answers that it is unable to parse, and only for those; the route then answers 400 (for
  the empty text, with the message of a missing query). The interpreter never returns the
  empty filter record. In particular \<^verbatim>\<open>tell me a joke\<close> cannot be parsed. Both servers
  behave so.
\<close>

theorem unparseable_distinction:
  "(no_pattern_fires q \<longrightarrow>
      interpret_query q = Inl Unable_to_parse \<and>
      filter_by_natural_language store (Some q)
        = Failure 400 (if q = [] then Missing_query else Unable_to_parse)) \<and>
   (p0_no_pattern_fires q \<longrightarrow>
      p0_interpret_query q = Inl Unable_to_parse \<and>
      p0_filter_by_natural_language strDB (Some q)
        = Failure 400 (if q = [] then Missing_query else Unable_to_parse)) \<and>
   (interpret_query q = Inl Unable_to_parse \<longleftrightarrow> no_pattern_fires q) \<and>
   (p0_interpret_query q = Inl Unable_to_parse \<longleftrightarrow> p0_no_pattern_fires q) \<and>
   interpret_query q \<noteq> Inr no_filters \<and> p0_interpret_query q \<noteq> Inr no_filters \<and>
   interpret_query ''tell me a joke'' = Inl Unable_to_parse \<and>
   p0_interpret_query ''tell me a joke'' = Inl Unable_to_parse"
proof (intro conjI impI)
  have k: "keys_count no_filters = 0" by (simp add: keys_count_def no_filters_def)
  show "interpret_query q \<noteq> Inr no_filters"
    by (auto simp: interpret_query_def Let_def k)
  show "p0_interpret_query q \<noteq> Inr no_filters"
    by (auto simp: p0_interpret_query_def Let_def k)
  have "parsed_filters ''tell me a joke'' = no_filters" by code_simp
  then show "interpret_query ''tell me a joke'' = Inl Unable_to_parse"
    by (simp add: interpret_query_def k)
  have "p0_parsed_filters ''tell me a joke'' = no_filters" by code_simp
  then show "p0_interpret_query ''tell me a joke'' = Inl Unable_to_parse"
    by (simp add: p0_interpret_query_def k)
  show "interpret_query q = Inl Unable_to_parse \<longleftrightarrow> no_pattern_fires q"
    by (rule unparseable_iff)
  show "p0_interpret_query q = Inl Unable_to_parse \<longleftrightarrow> p0_no_pattern_fires q"
    by (rule p0_unparseable_iff)
  {
    assume "no_pattern_fires q"
    then show i: "interpret_query q = Inl Unable_to_parse"
      by (simp add: unparseable_iff)
    then show "filter_by_natural_language store (Some q)
        = Failure 400 (if q = [] then Missing_query else Unable_to_parse)"
      by (simp add: filter_by_natural_language_def)
  }
  {
    assume "p0_no_pattern_fires q"
    then show i: "p0_interpret_query q = Inl Unable_to_parse"
      by (simp add: p0_unparseable_iff)
    then show "p0_filter_by_natural_language strDB (Some q)
        = Failure 400 (if q = [] then Missing_query else Unable_to_parse)"
      by (simp add: p0_filter_by_natural_language_def)
  }
qed

theorem unparseable_distinction_witness:
  "no_pattern_fires ''tell me a joke'' \<and> p0_no_pattern_fires ''tell me a joke'' \<and>
   filter_by_natural_language [(''k'', new_entry toy_digest ''t'' ''madam'')] (Some ''tell me a joke'')
     = Failure 400 Unable_to_parse \<and>
   p0_filter_by_natural_language [(''k'', p0_new_record toy_digest ''t'' ''madam'')]
       (Some ''tell me a joke'')
     = Failure 400 Unable_to_parse"
proof -
  have a: "no_pattern_fires ''tell me a joke''" by code_simp
  have b: "p0_no_pattern_fires ''tell me a joke''" by code_simp
  from unparseable_distinction
         [of "''tell me a joke''" "[(''k'', new_entry toy_digest ''t'' ''madam'')]"
             "[(''k'', p0_new_record toy_digest ''t'' ''madam'')]"] a b
  show ?thesis by simp
qed

end
